theory Spec2Isabelle
  imports Main
begin

section \<open>Strings and numbers of the host language\<close>

text \<open>
  A JavaScript string is a sequence of UTF-16 code units, and \<open>length\<close>, \<open>slice\<close> and
  \<open>indexOf\<close> count code units. A string is therefore a list of code-unit values. Literals are
  written \<open>S ''...''\<close>; line feed is 10, carriage return 13, the double quote 34 and the
  backslash 92.
\<close>

type_synonym jsstring = "nat list"

abbreviation S :: "string \<Rightarrow> jsstring" where
  "S s \<equiv> map of_char s"

text \<open>
  Numbers: the model carries \<open>NaN\<close> and the integers, which the doubles of the language
  represent exactly up to \<open>2^53\<close>; fractions and infinities are outside the model.
  String-to-number conversion (\<open>Number(s)\<close> on a string) is a built-in of the host language;
  every function that needs it takes it as the argument \<open>toNumber\<close>, so that nothing is
  assumed about it.
\<close>

datatype jsnum = NaN | Fin int

fun truthyNum :: "jsnum \<Rightarrow> bool" where
  "truthyNum NaN = False"
| "truthyNum (Fin n) = (n \<noteq> 0)"

fun truthyStr :: "jsstring option \<Rightarrow> bool" where
  "truthyStr None = False"
| "truthyStr (Some s) = (s \<noteq> [])"

text \<open>\<open>s.indexOf(c)\<close>: the first index of a code unit, \<open>None\<close> for the source's \<open>-1\<close>.\<close>

fun indexOf :: "nat \<Rightarrow> jsstring \<Rightarrow> nat option" where
  "indexOf c [] = None"
| "indexOf c (x # xs) = (if x = c then Some 0 else map_option Suc (indexOf c xs))"

section \<open>sse.ts: the SSE framer\<close>

record sse_event =
  event :: jsstring
  data :: jsstring
  id :: "jsstring option"
  retry :: "jsnum option"

definition newEvent :: sse_event where
  "newEvent = \<lparr>event = S ''message'', data = [], id = None, retry = None\<rparr>"

text \<open>
  \<open>dispatch\<close> returns the event under assembly after the call and the events handed to
  \<open>onEvent\<close>. An event with no data, no id and no retry is neither dispatched nor reset.
\<close>

definition dispatch :: "sse_event \<Rightarrow> sse_event \<times> sse_event list" where
  "dispatch e =
     (if data e = [] \<and> \<not> truthyStr (id e) \<and> retry e = None then (e, [])
      else (newEvent, [e]))"

text \<open>\<open>if (line.endsWith("\r")) line = line.slice(0, -1)\<close>\<close>

definition stripCR :: "jsstring \<Rightarrow> jsstring" where
  "stripCR line = (if line \<noteq> [] \<and> last line = 13 then butlast line else line)"

text \<open>\<open>if (val.startsWith(" ")) val = val.slice(1)\<close>\<close>

definition stripSpace :: "jsstring \<Rightarrow> jsstring" where
  "stripSpace val = (case val of [] \<Rightarrow> [] | c # cs \<Rightarrow> if c = 32 then cs else val)"

text \<open>\<open>ev.data += (ev.data ? "\n" : "") + val\<close>\<close>

definition appendData :: "sse_event \<Rightarrow> jsstring \<Rightarrow> sse_event" where
  "appendData e val = e\<lparr>data := data e @ (if data e \<noteq> [] then [10] else []) @ val\<rparr>"

text \<open>The body of the loop for a non-empty line: split at the first colon, set the field.\<close>

definition setField :: "(jsstring \<Rightarrow> jsnum) \<Rightarrow> sse_event \<Rightarrow> jsstring \<Rightarrow> sse_event" where
  "setField toNumber e line =
     (let sep = indexOf 58 line;
          field = (case sep of None \<Rightarrow> line | Some k \<Rightarrow> take k line);
          val = stripSpace (case sep of None \<Rightarrow> [] | Some k \<Rightarrow> drop (Suc k) line)
      in if field = S ''event'' then e\<lparr>event := val\<rparr>
         else if field = S ''data'' then appendData e val
         else if field = S ''id'' then e\<lparr>id := Some val\<rparr>
         else if field = S ''retry''
           then e\<lparr>retry := (if truthyNum (toNumber val) then Some (toNumber val) else None)\<rparr>
         else e)"

text \<open>
  The \<open>while (true)\<close> loop of \<open>feed\<close>. The source keeps an index \<open>i\<close> into the buffer and
  only ever looks at \<open>buffer.slice(i)\<close>; that remainder is the argument \<open>rest\<close>. The result is
  the event under assembly, the events dispatched so far and the unconsumed tail.
\<close>

function scan :: "(jsstring \<Rightarrow> jsnum) \<Rightarrow> sse_event \<Rightarrow> sse_event list \<Rightarrow> jsstring
    \<Rightarrow> sse_event \<times> sse_event list \<times> jsstring" where
  "scan toNumber e out rest =
     (case indexOf 10 rest of
        None \<Rightarrow> (e, out, rest)
      | Some nl \<Rightarrow>
          (let line = stripCR (take nl rest) in
           if line = []
           then scan toNumber (fst (dispatch e)) (out @ snd (dispatch e)) (drop (Suc nl) rest)
           else scan toNumber (setField toNumber e line) out (drop (Suc nl) rest)))"
  by pat_completeness auto
termination
proof (relation "measure (\<lambda>(n, e, out, rest). length rest)")
  have less: "indexOf c s = Some k \<Longrightarrow> k < length s" for c s k
    by (induction s arbitrary: k) (auto split: if_splits)
  show "wf (measure (\<lambda>(n, e, out, rest). length rest))" by simp
  show "((n, fst (dispatch e), out @ snd (dispatch e), drop (Suc nl) rest), (n, e, out, rest))
          \<in> measure (\<lambda>(n, e, out, rest). length rest)"
    if "indexOf 10 rest = Some nl"
    for n :: "jsstring \<Rightarrow> jsnum" and e and out :: "sse_event list" and rest nl
    using less [OF that] by simp
  show "((n, setField n e line, out, drop (Suc nl) rest), (n, e, out, rest))
          \<in> measure (\<lambda>(n, e, out, rest). length rest)"
    if "indexOf 10 rest = Some nl"
    for n :: "jsstring \<Rightarrow> jsnum" and e and out :: "sse_event list" and rest nl line
    using less [OF that] by simp
qed

declare scan.simps [simp del]

record framer =
  buffer :: jsstring
  ev :: sse_event

definition createSSEParser :: framer where
  "createSSEParser = \<lparr>buffer = [], ev = newEvent\<rparr>"

text \<open>
  \<open>feed(chunk, {flush})\<close>: the framer after the call and the events dispatched during it, in
  order.
\<close>

definition feed :: "(jsstring \<Rightarrow> jsnum) \<Rightarrow> framer \<Rightarrow> jsstring \<Rightarrow> bool
    \<Rightarrow> framer \<times> sse_event list" where
  "feed toNumber fr chunk flush =
     (case scan toNumber (ev fr) [] (buffer fr @ chunk) of
        (e, out, rest) \<Rightarrow>
          if flush \<and> rest \<noteq> []
          then (\<lparr>buffer = [], ev = fst (dispatch (appendData e rest))\<rparr>,
                out @ snd (dispatch (appendData e rest)))
          else (\<lparr>buffer = rest, ev = e\<rparr>, out))"

text \<open>A sequence of \<open>feed\<close> calls without flush, one per chunk.\<close>

fun feeds :: "(jsstring \<Rightarrow> jsnum) \<Rightarrow> framer \<Rightarrow> jsstring list \<Rightarrow> framer \<times> sse_event list" where
  "feeds toNumber fr [] = (fr, [])"
| "feeds toNumber fr (c # cs) =
     (case feed toNumber fr c False of
        (fr', out) \<Rightarrow> (case feeds toNumber fr' cs of (fr'', out') \<Rightarrow> (fr'', out @ out')))"

section \<open>Regular expressions of extractSlides.ts, as string functions\<close>

text \<open>
  The regular-expression class \<open>\s\<close> and \<open>String.prototype.trim\<close> use the same set of code
  units: the white space and line terminators of the language.
\<close>

definition isSpace :: "nat \<Rightarrow> bool" where
  "isSpace c =
     (c \<in> set [9, 10, 11, 12, 13, 32, 160, 5760, 8232, 8233, 8239, 8287, 12288, 65279]
      \<or> (8192 \<le> c \<and> c \<le> 8202))"

text \<open>
  Under the flag \<open>i\<close> (without \<open>u\<close>) a pattern letter \<open>a\<close>..\<open>z\<close> matches itself and its
  capital, and no code unit above 127; any other pattern character of the patterns below
  matches only itself. The patterns are written in lower case, so a code unit matches a pattern
  character when its ASCII lower case is that character.
\<close>

definition lowerAscii :: "nat \<Rightarrow> nat" where
  "lowerAscii c = (if 65 \<le> c \<and> c \<le> 90 then c + 32 else c)"

definition startsWith :: "jsstring \<Rightarrow> jsstring \<Rightarrow> bool" where
  "startsWith pat s = (take (length pat) s = pat)"

definition startsWithCI :: "jsstring \<Rightarrow> jsstring \<Rightarrow> bool" where
  "startsWithCI pat s = (map lowerAscii (take (length pat) s) = pat)"

definition endsWith :: "jsstring \<Rightarrow> jsstring \<Rightarrow> bool" where
  "endsWith pat s = startsWith (rev pat) (rev s)"

definition endsWithCI :: "jsstring \<Rightarrow> jsstring \<Rightarrow> bool" where
  "endsWithCI pat s = startsWithCI (rev pat) (rev s)"

text \<open>The first index at which the pattern matches, as a regular-expression search finds it.\<close>

fun findFirst :: "jsstring \<Rightarrow> jsstring \<Rightarrow> nat option" where
  "findFirst pat [] = (if startsWith pat [] then Some 0 else None)"
| "findFirst pat (c # cs) =
     (if startsWith pat (c # cs) then Some 0 else map_option Suc (findFirst pat cs))"

fun findFirstCI :: "jsstring \<Rightarrow> jsstring \<Rightarrow> nat option" where
  "findFirstCI pat [] = (if startsWithCI pat [] then Some 0 else None)"
| "findFirstCI pat (c # cs) =
     (if startsWithCI pat (c # cs) then Some 0 else map_option Suc (findFirstCI pat cs))"

definition trimEnd :: "jsstring \<Rightarrow> jsstring" where
  "trimEnd s = rev (dropWhile isSpace (rev s))"

definition trim :: "jsstring \<Rightarrow> jsstring" where
  "trim s = trimEnd (dropWhile isSpace s)"

section \<open>extractSlides.ts: cleaning a chunk\<close>

text \<open>
  \<open>s.replace(/^```(?:html)?\s*/i, "")\<close>: at the start of the string, three backquotes (code
  unit 96), the word \<open>html\<close> if it follows, and all white space after that are removed.
\<close>

definition stripFenceStart :: "jsstring \<Rightarrow> jsstring" where
  "stripFenceStart s =
     (if startsWith [96, 96, 96] s
      then (let r = drop 3 s
            in dropWhile isSpace (if startsWithCI (S ''html'') r then drop 4 r else r))
      else s)"

text \<open>
  \<open>s.replace(/\s*```$/i, "")\<close>: the leftmost match is the longest run of white space before
  three backquotes that end the string; it is removed together with them.
\<close>

definition stripFenceEnd :: "jsstring \<Rightarrow> jsstring" where
  "stripFenceEnd s =
     (if endsWith [96, 96, 96] s then trimEnd (take (length s - 3) s) else s)"

definition stripFences :: "jsstring \<Rightarrow> jsstring" where
  "stripFences s = stripFenceEnd (stripFenceStart s)"

text \<open>\<open>/\\n|\\t|\\"/.test(s)\<close>: a backslash followed by \<open>n\<close>, \<open>t\<close> or a double quote.\<close>

fun hasEscape :: "jsstring \<Rightarrow> bool" where
  "hasEscape (a # b # r) = (a = 92 \<and> (b = 110 \<or> b = 116 \<or> b = 34) \<or> hasEscape (b # r))"
| "hasEscape r = False"

text \<open>\<open>/<[a-z!/]/i.test(s)\<close>: a \<open><\<close> followed by a letter, \<open>!\<close> or \<open>/\<close>.\<close>

fun hasTagOpen :: "jsstring \<Rightarrow> bool" where
  "hasTagOpen (a # b # r) =
     (a = 60 \<and> (97 \<le> lowerAscii b \<and> lowerAscii b \<le> 122 \<or> b = 33 \<or> b = 47)
      \<or> hasTagOpen (b # r))"
| "hasTagOpen r = False"

definition hexVal :: "nat \<Rightarrow> nat option" where
  "hexVal c =
     (if 48 \<le> c \<and> c \<le> 57 then Some (c - 48)
      else if 97 \<le> c \<and> c \<le> 102 then Some (c - 87)
      else if 65 \<le> c \<and> c \<le> 70 then Some (c - 55)
      else None)"

fun hex4 :: "jsstring \<Rightarrow> nat option" where
  "hex4 [a, b, c, d] =
     (case (hexVal a, hexVal b, hexVal c, hexVal d) of
        (Some w, Some x, Some y, Some z) \<Rightarrow> Some (((w * 16 + x) * 16 + y) * 16 + z)
      | _ \<Rightarrow> None)"
| "hex4 r = None"

text \<open>The single-character escapes of a JSON string: \<open>\" \\ \/ \b \f \n \r \t\<close>.\<close>

definition unescape :: "nat \<Rightarrow> nat option" where
  "unescape c =
     (if c = 34 \<or> c = 92 \<or> c = 47 then Some c
      else if c = 98 then Some 8
      else if c = 102 then Some 12
      else if c = 110 then Some 10
      else if c = 114 then Some 13
      else if c = 116 then Some 9
      else None)"

text \<open>
  \<open>JSON.parse(`"${s}"`)\<close>. The text opens with a quote, so it can only be a JSON string; a
  quote inside \<open>s\<close> that is not escaped would close it before the end of the text, which is a
  syntax error, as are a control character, an unknown escape and a backslash at the end.
  \<open>None\<close> is the \<open>SyntaxError\<close>.
\<close>

fun jsonParseQuoted :: "jsstring \<Rightarrow> jsstring option" where
  "jsonParseQuoted [] = Some []"
| "jsonParseQuoted (c # cs) =
     (if c = 92 then
        (case cs of
           [] \<Rightarrow> None
         | d # ds \<Rightarrow>
             if d = 117 then
               (case hex4 (take 4 ds) of
                  None \<Rightarrow> None
                | Some u \<Rightarrow> map_option ((#) u) (jsonParseQuoted (drop 4 ds)))
             else
               (case unescape d of
                  None \<Rightarrow> None
                | Some x \<Rightarrow> map_option ((#) x) (jsonParseQuoted ds)))
      else if c = 34 \<or> c < 32 then None
      else map_option ((#) c) (jsonParseQuoted cs))"

text \<open>\<open>s.replace(/\\x/g, y)\<close> for a backslash followed by the code unit \<open>x\<close>.\<close>

fun replaceEscape :: "nat \<Rightarrow> nat \<Rightarrow> jsstring \<Rightarrow> jsstring" where
  "replaceEscape x y (a # b # r) =
     (if a = 92 \<and> b = x then y # replaceEscape x y r else a # replaceEscape x y (b # r))"
| "replaceEscape x y r = r"

definition maybeDecodeJsonString :: "jsstring \<Rightarrow> jsstring" where
  "maybeDecodeJsonString s =
     (if hasEscape s \<and> \<not> hasTagOpen s then
        (case jsonParseQuoted s of
           Some decoded \<Rightarrow> decoded
         | None \<Rightarrow> replaceEscape 34 34 (replaceEscape 110 10 s))
      else s)"

section \<open>extractSlides.ts: the extraction state and chunk ingestion\<close>

text \<open>
  \<open>toolState\<close> is an object keyed by position. It is an association list in insertion order;
  a position is an integer. Log lines are kept as values that carry what the line prints. The
  exceptions that the functions below can raise are \<open>TypeError\<close>s; \<open>SyntaxError\<close> is what
  \<open>JSON.parse\<close> raises.
\<close>

record tool_state =
  buf :: jsstring
  lastLen :: nat
  finalized :: bool

record extraction_state =
  toolState :: "(int \<times> tool_state) list"
  assistantBuf :: jsstring

datatype jserror = TypeError | SyntaxError

datatype logmsg =
    ToolIgnored int
  | ToolReset int nat
  | ToolGrow int nat nat
  | ToolNonMonotonic int nat
  | ToolFinalized int
  | SsePhase jsstring
  | DoneMarker
  | ParseError jserror jsstring
  | WaitingForStream
  | StreamClosed
  | BreakingLoop
  | StreamFinished

datatype emitted = Log logmsg | Partial int jsstring bool

definition createExtractionState :: extraction_state where
  "createExtractionState = \<lparr>toolState = [], assistantBuf = []\<rparr>"

definition freshTool :: tool_state where
  "freshTool = \<lparr>buf = [], lastLen = 0, finalized = False\<rparr>"

text \<open>\<open>state.toolState[pos] ||= {buf: "", lastLen: 0, finalized: false}\<close>\<close>

definition upsertPos :: "extraction_state \<Rightarrow> int \<Rightarrow> extraction_state \<times> tool_state" where
  "upsertPos state pos =
     (case map_of (toolState state) pos of
        Some s \<Rightarrow> (state, s)
      | None \<Rightarrow> (state\<lparr>toolState := toolState state @ [(pos, freshTool)]\<rparr>, freshTool))"

text \<open>
  The object that \<open>upsertPos\<close> returns is the one held in the table, so an assignment to one of
  its fields changes the entry of \<open>pos\<close> and nothing else.
\<close>

definition storePos :: "extraction_state \<Rightarrow> int \<Rightarrow> tool_state \<Rightarrow> extraction_state" where
  "storePos state pos s =
     state\<lparr>toolState := map (\<lambda>(p, t). if p = pos then (p, s) else (p, t)) (toolState state)\<rparr>"

text \<open>\<open>/^\s*<!doctype html/i.test(c) || /^\s*<html[\s>]/i.test(c)\<close>\<close>

definition isResetStart :: "jsstring \<Rightarrow> bool" where
  "isResetStart c =
     (let r = dropWhile isSpace c
      in startsWithCI (S ''<!doctype html'') r
         \<or> (startsWithCI (S ''<html'') r
             \<and> (case drop 5 r of [] \<Rightarrow> False | x # xs \<Rightarrow> isSpace x \<or> x = 62)))"

text \<open>\<open>/<\/html>\s*$/i.test(buf)\<close>\<close>

definition isComplete :: "jsstring \<Rightarrow> bool" where
  "isComplete b = endsWithCI (S ''</html>'') (trimEnd b)"

text \<open>
  \<open>onToolChunk\<close>, called with an \<open>onPartial\<close> callback as \<open>walkEvent\<close>'s callers do. The result
  is the state after the call and what the call emitted: log lines and \<open>onPartial\<close> calls.
\<close>

definition onToolChunk :: "extraction_state \<Rightarrow> int \<Rightarrow> jsstring
    \<Rightarrow> extraction_state \<times> emitted list" where
  "onToolChunk state pos raw =
     (case upsertPos state pos of
        (state1, s) \<Rightarrow>
          if finalized s then (state1, [Log (ToolIgnored pos)])
          else
            (let cleanedRaw = maybeDecodeJsonString (stripFences raw);
                 (s1, log1) =
                   (if isResetStart cleanedRaw then
                      (s\<lparr>buf := cleanedRaw, lastLen := length cleanedRaw\<rparr>,
                       [Log (ToolReset pos (length cleanedRaw))])
                    else if length cleanedRaw > lastLen s then
                      (let tail = drop (lastLen s) cleanedRaw
                       in if tail \<noteq> [] then
                            (s\<lparr>buf := buf s @ tail, lastLen := length cleanedRaw\<rparr>,
                             [Log (ToolGrow pos (length tail) (length (buf s @ tail)))])
                          else (s, []))
                    else if length cleanedRaw < lastLen s \<and> length cleanedRaw > 0 then
                      (s\<lparr>buf := buf s @ cleanedRaw, lastLen := length (buf s @ cleanedRaw)\<rparr>,
                       [Log (ToolNonMonotonic pos (length (buf s @ cleanedRaw)))])
                    else if length cleanedRaw > 0 \<and> lastLen s = 0 then
                      (s\<lparr>buf := buf s @ cleanedRaw, lastLen := length cleanedRaw\<rparr>, [])
                    else (s, []));
                 complete = isComplete (buf s1);
                 s2 = (if complete then s1\<lparr>finalized := True\<rparr> else s1)
             in (storePos state1 pos s2,
                 log1 @ [Partial pos (buf s1) complete]
                   @ (if complete then [Log (ToolFinalized pos)] else []))))"

text \<open>A sequence of \<open>onToolChunk\<close> calls, each with its position and raw chunk.\<close>

fun onToolChunks :: "extraction_state \<Rightarrow> (int \<times> jsstring) list
    \<Rightarrow> extraction_state \<times> emitted list" where
  "onToolChunks state [] = (state, [])"
| "onToolChunks state ((pos, raw) # calls) =
     (case onToolChunk state pos raw of
        (state1, out) \<Rightarrow>
          (case onToolChunks state1 calls of (state2, out') \<Rightarrow> (state2, out @ out')))"

text \<open>
  Reading the model: the record of a position (the initial record if the position has none
  yet), and the \<open>onPartial\<close> calls made for a position, oldest first.
\<close>

definition toolAt :: "extraction_state \<Rightarrow> int \<Rightarrow> tool_state" where
  "toolAt state pos = (case map_of (toolState state) pos of Some s \<Rightarrow> s | None \<Rightarrow> freshTool)"

fun reportsFor :: "int \<Rightarrow> emitted list \<Rightarrow> (jsstring \<times> bool) list" where
  "reportsFor pos [] = []"
| "reportsFor pos (Log m # r) = reportsFor pos r"
| "reportsFor pos (Partial p h c # r) =
     (if p = pos then (h, c) # reportsFor pos r else reportsFor pos r)"

text \<open>
  The buffer of a position is complete, and the last \<open>onPartial\<close> call made for the position
  carried that buffer with \<open>complete = true\<close>.
\<close>

definition reported :: "extraction_state \<Rightarrow> emitted list \<Rightarrow> int \<Rightarrow> bool" where
  "reported state outs pos =
     (isComplete (buf (toolAt state pos)) \<and> reportsFor pos outs \<noteq> []
      \<and> last (reportsFor pos outs) = (buf (toolAt state pos), True))"

section \<open>extractSlides.ts: decoded payloads and walkEvent\<close>

text \<open>
  A decoded JSON payload, together with \<open>undefined\<close>, which reading an absent property yields.
  An object is the list of its own properties, each name once.
\<close>

datatype jsval =
    Undefined
  | Null
  | Bool bool
  | Num jsnum
  | Str jsstring
  | Arr "jsval list"
  | Obj "(jsstring \<times> jsval) list"

text \<open>
  \<open>v.k\<close>: reading a property of \<open>null\<close> or \<open>undefined\<close> throws. None of the property names
  that the source reads is inherited from a built-in prototype, so on any other value the read
  is a look-up among the own properties.
\<close>

fun getProp :: "jsval \<Rightarrow> jsstring \<Rightarrow> jserror + jsval" where
  "getProp Undefined k = Inl TypeError"
| "getProp Null k = Inl TypeError"
| "getProp (Obj kvs) k = Inr (case map_of kvs k of Some v \<Rightarrow> v | None \<Rightarrow> Undefined)"
| "getProp v k = Inr Undefined"

text \<open>\<open>v?.k\<close>, and \<open>v.k\<close> where \<open>v\<close> is known not to be \<open>null\<close> or \<open>undefined\<close>.\<close>

fun getOpt :: "jsval \<Rightarrow> jsstring \<Rightarrow> jsval" where
  "getOpt (Obj kvs) k = (case map_of kvs k of Some v \<Rightarrow> v | None \<Rightarrow> Undefined)"
| "getOpt v k = Undefined"

text \<open>\<open>v?.[0]\<close>\<close>

fun firstElem :: "jsval \<Rightarrow> jsval" where
  "firstElem (Arr (x # xs)) = x"
| "firstElem (Str (c # cs)) = Str [c]"
| "firstElem (Obj kvs) = (case map_of kvs (S ''0'') of Some v \<Rightarrow> v | None \<Rightarrow> Undefined)"
| "firstElem v = Undefined"

text \<open>\<open>asArray = x => x == null ? [] : Array.isArray(x) ? x : [x]\<close>\<close>

fun asArray :: "jsval \<Rightarrow> jsval list" where
  "asArray Undefined = []"
| "asArray Null = []"
| "asArray (Arr xs) = xs"
| "asArray v = [v]"

fun truthy :: "jsval \<Rightarrow> bool" where
  "truthy Undefined = False"
| "truthy Null = False"
| "truthy (Bool b) = b"
| "truthy (Num n) = truthyNum n"
| "truthy (Str s) = (s \<noteq> [])"
| "truthy v = True"

text \<open>\<open>a || b\<close> and \<open>a ?? b\<close> on values that are already evaluated.\<close>

definition orElse :: "jsval \<Rightarrow> jsval \<Rightarrow> jsval" where
  "orElse a b = (if truthy a then a else b)"

definition nullish :: "jsval \<Rightarrow> jsval \<Rightarrow> jsval" where
  "nullish a b = (if a = Undefined \<or> a = Null then b else a)"

text \<open>
  Number to string: all decimal digits, with a minus sign. This is what the language prints for
  an integer of magnitude up to \<open>2^53\<close>. Larger numbers print with rounded digits, and in
  exponent form from \<open>1e21\<close>; they are outside the model, and a statement about printed text
  bounds its number.
\<close>

fun showNat :: "nat \<Rightarrow> jsstring" where
  "showNat n = (if n < 10 then [48 + n] else showNat (n div 10) @ [48 + n mod 10])"

declare showNat.simps [simp del]

definition showInt :: "int \<Rightarrow> jsstring" where
  "showInt i = (if i < 0 then 45 # showNat (nat (- i)) else showNat (nat i))"

fun numToString :: "jsnum \<Rightarrow> jsstring" where
  "numToString NaN = S ''NaN''"
| "numToString (Fin i) = showInt i"

text \<open>
  \<open>String(v)\<close>. An array is joined with commas, \<open>null\<close> and \<open>undefined\<close> elements giving the
  empty string. A decoded object prints as \<open>[object Object]\<close>, unless it has an own property
  \<open>toString\<close>: that property is not callable, the inherited \<open>valueOf\<close> returns the object
  itself, and the conversion throws a \<open>TypeError\<close>.
\<close>

fun toStringJS :: "jsval \<Rightarrow> jserror + jsstring"
  and joinJS :: "jsval list \<Rightarrow> jserror + jsstring" where
  "toStringJS Undefined = Inr (S ''undefined'')"
| "toStringJS Null = Inr (S ''null'')"
| "toStringJS (Bool b) = Inr (if b then S ''true'' else S ''false'')"
| "toStringJS (Num n) = Inr (numToString n)"
| "toStringJS (Str s) = Inr s"
| "toStringJS (Arr xs) = joinJS xs"
| "toStringJS (Obj kvs) =
     (if map_of kvs (S ''toString'') = None then Inr (S ''[object Object]'') else Inl TypeError)"
| "joinJS [] = Inr []"
| "joinJS (x # xs) =
     (case (if x = Undefined \<or> x = Null then Inr [] else toStringJS x) of
        Inl e \<Rightarrow> Inl e
      | Inr s \<Rightarrow>
          if xs = [] then Inr s
          else (case joinJS xs of Inl e \<Rightarrow> Inl e | Inr r \<Rightarrow> Inr (s @ [44] @ r)))"

text \<open>\<open>Number(v)\<close>: arrays and objects are converted to a string first.\<close>

fun toNumberJS :: "(jsstring \<Rightarrow> jsnum) \<Rightarrow> jsval \<Rightarrow> jserror + jsnum" where
  "toNumberJS toNumber Undefined = Inr NaN"
| "toNumberJS toNumber Null = Inr (Fin 0)"
| "toNumberJS toNumber (Bool b) = Inr (Fin (if b then 1 else 0))"
| "toNumberJS toNumber (Num n) = Inr n"
| "toNumberJS toNumber (Str s) = Inr (toNumber s)"
| "toNumberJS toNumber v =
     (case toStringJS v of Inl e \<Rightarrow> Inl e | Inr s \<Rightarrow> Inr (toNumber s))"

text \<open>
  \<open>s.toLowerCase()\<close> on the code units below 256: the capitals of ASCII and of Latin-1. Code
  units above 255 are left unchanged. The result is only tested for the ASCII words
  \<open>insert\<close>, \<open>add\<close>, \<open>page\<close> and \<open>slide\<close>, and no code unit above 255 has a lower case
  that can complete one of them: only U+0130 and U+212A lower-case to ASCII letters, to \<open>i\<close>
  followed by U+0307 and to \<open>k\<close>.
\<close>

definition lowerUnit :: "nat \<Rightarrow> nat" where
  "lowerUnit c =
     (if (65 \<le> c \<and> c \<le> 90) \<or> (192 \<le> c \<and> c \<le> 222 \<and> c \<noteq> 215) then c + 32 else c)"

definition toLowerCase :: "jsstring \<Rightarrow> jsstring" where
  "toLowerCase s = map lowerUnit s"

definition contains :: "jsstring \<Rightarrow> jsstring \<Rightarrow> bool" where
  "contains pat s = (findFirst pat s \<noteq> None)"

text \<open>\<open>/insert|add/.test(tool) && /page|slide/.test(tool)\<close>\<close>

definition isAdd :: "jsstring \<Rightarrow> bool" where
  "isAdd tool =
     ((contains (S ''insert'') tool \<or> contains (S ''add'') tool)
      \<and> (contains (S ''page'') tool \<or> contains (S ''slide'') tool))"

text \<open>
  A \<open>for (const x of xs)\<close> loop whose body may throw. The state is mutated in place, so what
  was done before the exception stays done: the result carries the state and the emitted items
  in every case, and the exception if there was one.
\<close>

type_synonym 's outcome = "'s \<times> emitted list \<times> jserror option"

fun forOf :: "('s \<Rightarrow> 'a \<Rightarrow> 's outcome) \<Rightarrow> 's \<Rightarrow> 'a list \<Rightarrow> 's outcome" where
  "forOf body st [] = (st, [], None)"
| "forOf body st (x # xs) =
     (case body st x of
        (st1, out, Some e) \<Rightarrow> (st1, out, Some e)
      | (st1, out, None) \<Rightarrow>
          (case forOf body st1 xs of (st2, out', r) \<Rightarrow> (st2, out @ out', r)))"

text \<open>
  The first \<open>if\<close> of the loop over the content parts, for a part of type \<open>object\<close> whose
  \<open>object\<close> property \<open>ob\<close> is truthy.
\<close>

definition toolPart :: "(jsstring \<Rightarrow> jsnum) \<Rightarrow> extraction_state \<Rightarrow> jsval
    \<Rightarrow> extraction_state outcome" where
  "toolPart toNumber state ob =
     (case toStringJS (orElse (orElse (getOpt ob (S ''tool_name'')) (getOpt ob (S ''name''))) (Str []))
      of Inl e \<Rightarrow> (state, [], Some e)
       | Inr name \<Rightarrow>
           if isAdd (toLowerCase name) then
             (case toNumberJS toNumber (firstElem (getOpt ob (S ''position''))) of
                Inl e \<Rightarrow> (state, [], Some e)
              | Inr n1 \<Rightarrow>
                  (case (if truthyNum n1 then Inr n1
                         else toNumberJS toNumber (getOpt ob (S ''page_index''))) of
                     Inl e \<Rightarrow> (state, [], Some e)
                   | Inr n2 \<Rightarrow>
                       (let pos = (case n2 of Fin i \<Rightarrow> if i \<noteq> 0 then i else 1 | NaN \<Rightarrow> 1);
                            raw = nullish (getOpt ob (S ''output_delta''))
                                    (nullish (getOpt ob (S ''delta''))
                                       (nullish (getOpt ob (S ''output''))
                                          (nullish (getOpt ob (S ''html'')) (Str []))))
                        in case raw of
                             Str r \<Rightarrow>
                               if r \<noteq> [] then
                                 (case onToolChunk state pos r of (state1, out) \<Rightarrow> (state1, out, None))
                               else (state, [], None)
                           | _ \<Rightarrow> (state, [], None))))
           else (state, [], None))"

definition walkPart :: "(jsstring \<Rightarrow> jsnum) \<Rightarrow> extraction_state \<Rightarrow> jsval
    \<Rightarrow> extraction_state outcome" where
  "walkPart toNumber state part =
     (case (if getOpt part (S ''type'') = Str (S ''object'') \<and> truthy (getOpt part (S ''object''))
            then toolPart toNumber state (getOpt part (S ''object''))
            else (state, [], None)) of
        (state1, out, Some e) \<Rightarrow> (state1, out, Some e)
      | (state1, out, None) \<Rightarrow>
          (case (getOpt part (S ''type''), getOpt part (S ''text'')) of
             (Str t, Str text) \<Rightarrow>
               if t = S ''text''
               then (state1\<lparr>assistantBuf := assistantBuf state1 @ text\<rparr>, out, None)
               else (state1, out, None)
           | _ \<Rightarrow> (state1, out, None)))"

definition walkMsg :: "(jsstring \<Rightarrow> jsnum) \<Rightarrow> extraction_state \<Rightarrow> jsval
    \<Rightarrow> extraction_state outcome" where
  "walkMsg toNumber state msg =
     (case toStringJS (nullish (getOpt msg (S ''phase'')) (Str (S ''?''))) of
        Inl e \<Rightarrow> (state, [], Some e)
      | Inr phase \<Rightarrow>
          (case getProp msg (S ''content'') of
             Inl e \<Rightarrow> (state, [Log (SsePhase phase)], Some e)
           | Inr content \<Rightarrow>
               (case forOf (walkPart toNumber) state (asArray content) of
                  (state1, out, r) \<Rightarrow> (state1, Log (SsePhase phase) # out, r))))"

definition walkChoice :: "(jsstring \<Rightarrow> jsnum) \<Rightarrow> extraction_state \<Rightarrow> jsval
    \<Rightarrow> extraction_state outcome" where
  "walkChoice toNumber state choice =
     (case getProp choice (S ''messages'') of
        Inl e \<Rightarrow> (state, [], Some e)
      | Inr messages \<Rightarrow>
          forOf (walkMsg toNumber) state
            (asArray (nullish messages (getOpt choice (S ''message'')))))"

definition walkEvent :: "(jsstring \<Rightarrow> jsnum) \<Rightarrow> extraction_state \<Rightarrow> jsval
    \<Rightarrow> extraction_state outcome" where
  "walkEvent toNumber state obj =
     (case getProp obj (S ''choices'') of
        Inl e \<Rightarrow> (state, [], Some e)
      | Inr choices \<Rightarrow>
          (case forOf (walkChoice toNumber) state (asArray choices) of
             (state1, out, Some e) \<Rightarrow> (state1, out, Some e)
           | (state1, out, None) \<Rightarrow>
               (case nullish (getOpt (getOpt obj (S ''output_text'')) (S ''delta''))
                       (nullish (getOpt obj (S ''delta'')) (Str [])) of
                  Str delta \<Rightarrow> (state1\<lparr>assistantBuf := assistantBuf state1 @ delta\<rparr>, out, None)
                | _ \<Rightarrow> (state1, out, None))))"

section \<open>extractSlides.ts: slide assembly\<close>

text \<open>
  A match of \<open>/<!doctype html[\s\S]*?<\/html>/i\<close> or \<open>/<html[\s\S]*?<\/html>/i\<close>: the first
  place where the opening text stands, up to the end of the first \<open></html>\<close> after it. If no
  \<open></html>\<close> follows the first opening, none follows a later one.
\<close>

definition matchDoc :: "jsstring \<Rightarrow> jsstring \<Rightarrow> jsstring option" where
  "matchDoc opening s =
     (case findFirstCI opening s of
        None \<Rightarrow> None
      | Some i \<Rightarrow>
          (case findFirstCI (S ''</html>'') (drop (i + length opening) s) of
             None \<Rightarrow> None
           | Some j \<Rightarrow> Some (take (length opening + j + 7) (drop i s))))"

definition cutFirstHtmlDoc :: "jsstring \<Rightarrow> jsstring option" where
  "cutFirstHtmlDoc s =
     (case matchDoc (S ''<!doctype html'') s of
        Some m \<Rightarrow> Some (trim m)
      | None \<Rightarrow>
          (case matchDoc (S ''<html'') s of
             Some m \<Rightarrow> Some (trim m)
           | None \<Rightarrow> None))"

text \<open>
  The template literal of \<open>finalizeSlides\<close> for a buffer without a complete document. The
  position is printed by \<open>showInt\<close>, which is the language's printing for positions of
  magnitude up to \<open>2^53\<close>.
\<close>

definition minimalDoc :: "int \<Rightarrow> jsstring \<Rightarrow> jsstring" where
  "minimalDoc pos b =
     S ''<!doctype html><html><head><meta charset=\"utf-8\"><title>Slide '' @ showInt pos
       @ S ''</title></head><body>'' @ b @ S ''</body></html>''"

text \<open>
  \<open>finalizeSlides\<close> returns objects \<open>{position, html}\<close>, here pairs. The entries of the table
  are filtered and then sorted by position, so the order in which \<open>Object.entries\<close> lists them
  does not show in the result. The two \<open>replace\<close> calls are those of \<open>stripFences\<close>.
\<close>

definition finalizeSlides :: "extraction_state \<Rightarrow> (int \<times> jsstring) list" where
  "finalizeSlides state =
     (let entries =
            sort_key fst
              (filter (\<lambda>(pos, b). b \<noteq> [] \<and> length (trim b) > 0)
                 (map (\<lambda>(pos, st). (pos, buf st)) (toolState state)));
          slides =
            map (\<lambda>(pos, rawBuf).
                   (let b = stripFences rawBuf
                    in (pos, case cutFirstHtmlDoc b of Some h \<Rightarrow> h | None \<Rightarrow> minimalDoc pos b)))
              entries
      in if slides = [] then
           (case cutFirstHtmlDoc (stripFences (assistantBuf state)) of
              Some h \<Rightarrow> if h \<noteq> [] then [(1, h)] else []
            | None \<Rightarrow> [])
         else slides)"

section \<open>The transport: callGlmAgent after a streaming response has been obtained\<close>

text \<open>
  The model starts where \<open>callGlmAgent\<close> holds a response with a body. The body is the list
  of decoded text chunks that \<open>reader.read()\<close> yields before it reports \<open>done\<close>.
  \<open>JSON.parse\<close> on an event's data is a built-in and is the argument \<open>jsonParse\<close>, with
  \<open>None\<close> for a \<open>SyntaxError\<close>. Debug tracing is off (\<open>debugEnabled\<close> returns false), the
  log sink \<open>onLog\<close> and the callbacks \<open>onPartial\<close> and \<open>onComplete\<close> are supplied and do not
  throw. The field \<open>parse\<close> is the state of the framer behind the function \<open>parse\<close>.
\<close>

record transport =
  seenEventIds :: "jsstring set"
  shouldBreakLoop :: bool
  finalConvId :: jsval
  rawSseBuffer :: jsstring
  extractionState :: extraction_state
  parse :: framer

record generated_slide =
  pageNumber :: int
  html :: jsstring
  draft :: jsstring
  complete :: bool

definition openTransport :: "jsstring \<Rightarrow> transport" where
  "openTransport conversationId =
     \<lparr>seenEventIds = {}, shouldBreakLoop = False, finalConvId = Str conversationId,
      rawSseBuffer = [], extractionState = createExtractionState, parse = createSSEParser\<rparr>"

text \<open>The id of an event when \<open>evt.id\<close> is truthy.\<close>

definition eventId :: "sse_event \<Rightarrow> jsstring option" where
  "eventId evt = (case id evt of Some i \<Rightarrow> if i \<noteq> [] then Some i else None | None \<Rightarrow> None)"

text \<open>
  The \<open>try\<close> block of the callback given to \<open>createSSEParser\<close>; whatever is thrown inside
  it is caught and logged.
\<close>

definition handleEvent :: "(jsstring \<Rightarrow> jsval option) \<Rightarrow> (jsstring \<Rightarrow> jsnum) \<Rightarrow> transport
    \<Rightarrow> sse_event \<Rightarrow> transport \<times> emitted list" where
  "handleEvent jsonParse toNumber t evt =
     (if trim (data evt) = S ''[DONE]'' then (t\<lparr>shouldBreakLoop := True\<rparr>, [Log DoneMarker])
      else
        (case jsonParse (data evt) of
           None \<Rightarrow> (t, [Log (ParseError SyntaxError (data evt))])
         | Some eventData \<Rightarrow>
             (case getProp eventData (S ''conversation_id'') of
                Inl e \<Rightarrow> (t, [Log (ParseError e (data evt))])
              | Inr cid \<Rightarrow>
                  (let t1 = (if truthy cid \<and> \<not> truthy (finalConvId t)
                             then t\<lparr>finalConvId := cid\<rparr> else t)
                   in case walkEvent toNumber (extractionState t1) eventData of
                        (es, out, r) \<Rightarrow>
                          (t1\<lparr>extractionState := es\<rparr>,
                           out @ (case r of
                                    Some e \<Rightarrow> [Log (ParseError e (data evt))]
                                  | None \<Rightarrow> []))))))"

text \<open>The callback: the seen-id check, then the \<open>try\<close> block.\<close>

definition onSseEvent :: "(jsstring \<Rightarrow> jsval option) \<Rightarrow> (jsstring \<Rightarrow> jsnum) \<Rightarrow> transport
    \<Rightarrow> sse_event \<Rightarrow> transport \<times> emitted list" where
  "onSseEvent jsonParse toNumber t evt =
     (case eventId evt of
        Some i \<Rightarrow>
          if i \<in> seenEventIds t then (t, [])
          else handleEvent jsonParse toNumber (t\<lparr>seenEventIds := insert i (seenEventIds t)\<rparr>) evt
      | None \<Rightarrow> handleEvent jsonParse toNumber t evt)"

text \<open>The framer calls the callback once for each event that it dispatches, in order.\<close>

fun onSseEvents :: "(jsstring \<Rightarrow> jsval option) \<Rightarrow> (jsstring \<Rightarrow> jsnum) \<Rightarrow> transport
    \<Rightarrow> sse_event list \<Rightarrow> transport \<times> emitted list" where
  "onSseEvents jsonParse toNumber t [] = (t, [])"
| "onSseEvents jsonParse toNumber t (evt # evts) =
     (case onSseEvent jsonParse toNumber t evt of
        (t1, out) \<Rightarrow>
          (case onSseEvents jsonParse toNumber t1 evts of (t2, out') \<Rightarrow> (t2, out @ out')))"

text \<open>\<open>parse(chunk)\<close> and \<open>parse("", {flush: true})\<close>\<close>

definition parseChunk :: "(jsstring \<Rightarrow> jsval option) \<Rightarrow> (jsstring \<Rightarrow> jsnum) \<Rightarrow> transport
    \<Rightarrow> jsstring \<Rightarrow> bool \<Rightarrow> transport \<times> emitted list" where
  "parseChunk jsonParse toNumber t chunk flush =
     (case feed toNumber (parse t) chunk flush of
        (fr, evts) \<Rightarrow> onSseEvents jsonParse toNumber (t\<lparr>parse := fr\<rparr>) evts)"

text \<open>The read loop of the first copy of \<open>callGlmAgent\<close>, which breaks on the flag.\<close>

fun readLoop :: "(jsstring \<Rightarrow> jsval option) \<Rightarrow> (jsstring \<Rightarrow> jsnum) \<Rightarrow> transport
    \<Rightarrow> jsstring list \<Rightarrow> transport \<times> emitted list" where
  "readLoop jsonParse toNumber t [] = (t, [Log StreamClosed])"
| "readLoop jsonParse toNumber t (chunk # body) =
     (case parseChunk jsonParse toNumber (t\<lparr>rawSseBuffer := rawSseBuffer t @ chunk\<rparr>) chunk False
      of (t1, out) \<Rightarrow>
        if shouldBreakLoop t1 then (t1, out @ [Log BreakingLoop])
        else (case readLoop jsonParse toNumber t1 body of (t2, out') \<Rightarrow> (t2, out @ out')))"

text \<open>
  The result of \<open>callGlmAgent\<close>: the two arguments of \<open>onComplete\<close>, and what was emitted on
  the way.
\<close>

definition callGlmAgent :: "(jsstring \<Rightarrow> jsval option) \<Rightarrow> (jsstring \<Rightarrow> jsnum) \<Rightarrow> jsstring
    \<Rightarrow> jsstring list \<Rightarrow> jsval \<times> generated_slide list \<times> emitted list" where
  "callGlmAgent jsonParse toNumber conversationId body =
     (case readLoop jsonParse toNumber (openTransport conversationId) body of
        (t1, out1) \<Rightarrow>
          (case parseChunk jsonParse toNumber t1 [] True of
             (t2, out2) \<Rightarrow>
               (finalConvId t2,
                map (\<lambda>(position, h). \<lparr>pageNumber = position, html = h, draft = h, complete = True\<rparr>)
                  (finalizeSlides (extractionState t2)),
                Log WaitingForStream # out1 @ out2 @ [Log StreamFinished])))"

text \<open>
  The second copy of \<open>callGlmAgent\<close> in the same file: its callback does not set a flag on
  \<open>[DONE]\<close>, and its read loop runs until the reader reports \<open>done\<close>.
\<close>

definition handleEvent2 :: "(jsstring \<Rightarrow> jsval option) \<Rightarrow> (jsstring \<Rightarrow> jsnum) \<Rightarrow> transport
    \<Rightarrow> sse_event \<Rightarrow> transport \<times> emitted list" where
  "handleEvent2 jsonParse toNumber t evt =
     (if trim (data evt) = S ''[DONE]'' then (t, [Log DoneMarker])
      else
        (case jsonParse (data evt) of
           None \<Rightarrow> (t, [Log (ParseError SyntaxError (data evt))])
         | Some eventData \<Rightarrow>
             (case getProp eventData (S ''conversation_id'') of
                Inl e \<Rightarrow> (t, [Log (ParseError e (data evt))])
              | Inr cid \<Rightarrow>
                  (let t1 = (if truthy cid \<and> \<not> truthy (finalConvId t)
                             then t\<lparr>finalConvId := cid\<rparr> else t)
                   in case walkEvent toNumber (extractionState t1) eventData of
                        (es, out, r) \<Rightarrow>
                          (t1\<lparr>extractionState := es\<rparr>,
                           out @ (case r of
                                    Some e \<Rightarrow> [Log (ParseError e (data evt))]
                                  | None \<Rightarrow> []))))))"

definition onSseEvent2 :: "(jsstring \<Rightarrow> jsval option) \<Rightarrow> (jsstring \<Rightarrow> jsnum) \<Rightarrow> transport
    \<Rightarrow> sse_event \<Rightarrow> transport \<times> emitted list" where
  "onSseEvent2 jsonParse toNumber t evt =
     (case eventId evt of
        Some i \<Rightarrow>
          if i \<in> seenEventIds t then (t, [])
          else handleEvent2 jsonParse toNumber (t\<lparr>seenEventIds := insert i (seenEventIds t)\<rparr>) evt
      | None \<Rightarrow> handleEvent2 jsonParse toNumber t evt)"

fun onSseEvents2 :: "(jsstring \<Rightarrow> jsval option) \<Rightarrow> (jsstring \<Rightarrow> jsnum) \<Rightarrow> transport
    \<Rightarrow> sse_event list \<Rightarrow> transport \<times> emitted list" where
  "onSseEvents2 jsonParse toNumber t [] = (t, [])"
| "onSseEvents2 jsonParse toNumber t (evt # evts) =
     (case onSseEvent2 jsonParse toNumber t evt of
        (t1, out) \<Rightarrow>
          (case onSseEvents2 jsonParse toNumber t1 evts of (t2, out') \<Rightarrow> (t2, out @ out')))"

definition parseChunk2 :: "(jsstring \<Rightarrow> jsval option) \<Rightarrow> (jsstring \<Rightarrow> jsnum) \<Rightarrow> transport
    \<Rightarrow> jsstring \<Rightarrow> bool \<Rightarrow> transport \<times> emitted list" where
  "parseChunk2 jsonParse toNumber t chunk flush =
     (case feed toNumber (parse t) chunk flush of
        (fr, evts) \<Rightarrow> onSseEvents2 jsonParse toNumber (t\<lparr>parse := fr\<rparr>) evts)"

fun readLoop2 :: "(jsstring \<Rightarrow> jsval option) \<Rightarrow> (jsstring \<Rightarrow> jsnum) \<Rightarrow> transport
    \<Rightarrow> jsstring list \<Rightarrow> transport \<times> emitted list" where
  "readLoop2 jsonParse toNumber t [] = (t, [])"
| "readLoop2 jsonParse toNumber t (chunk # body) =
     (case parseChunk2 jsonParse toNumber (t\<lparr>rawSseBuffer := rawSseBuffer t @ chunk\<rparr>) chunk False
      of (t1, out) \<Rightarrow>
        (case readLoop2 jsonParse toNumber t1 body of (t2, out') \<Rightarrow> (t2, out @ out')))"

definition callGlmAgent2 :: "(jsstring \<Rightarrow> jsval option) \<Rightarrow> (jsstring \<Rightarrow> jsnum) \<Rightarrow> jsstring
    \<Rightarrow> jsstring list \<Rightarrow> jsval \<times> generated_slide list \<times> emitted list" where
  "callGlmAgent2 jsonParse toNumber conversationId body =
     (case readLoop2 jsonParse toNumber (openTransport conversationId) body of
        (t1, out1) \<Rightarrow>
          (case parseChunk2 jsonParse toNumber t1 [] True of
             (t2, out2) \<Rightarrow>
               (finalConvId t2,
                map (\<lambda>(position, h). \<lparr>pageNumber = position, html = h, draft = h, complete = True\<rparr>)
                  (finalizeSlides (extractionState t2)),
                Log WaitingForStream # out1 @ out2 @ [Log StreamFinished])))"

text \<open>
  For the examples: \<open>JSON.parse\<close> on two texts, a payload with a top-level \<open>delta\<close> and a
  tool call that inserts page 2; every other text is taken to be malformed.
\<close>

definition lateText :: jsstring where
  "lateText = S ''{\"delta\":\"<html>late</html>\"}''"

definition toolText :: jsstring where
  "toolText = S ''{\"choices\":[{\"messages\":[{\"phase\":\"tool\",\"content\":[{\"type\":\"object\",\"object\":{\"tool_name\":\"insert_page\",\"position\":[2],\"output\":\"Hi\"}}]}]}]}''"

definition exampleParse :: "jsstring \<Rightarrow> jsval option" where
  "exampleParse s =
     (if s = lateText then Some (Obj [(S ''delta'', Str (S ''<html>late</html>''))])
      else if s = toolText then
        Some (Obj [(S ''choices'', Arr [Obj [(S ''messages'', Arr [Obj
          [(S ''phase'', Str (S ''tool'')),
           (S ''content'', Arr [Obj
              [(S ''type'', Str (S ''object'')),
               (S ''object'', Obj
                  [(S ''tool_name'', Str (S ''insert_page'')),
                   (S ''position'', Arr [Num (Fin 2)]),
                   (S ''output'', Str (S ''Hi''))])]])]])]])])
      else None)"


section \<open>debugFetch: the retrying fetch wrapper\<close>

text \<open>
  The network is the function \<open>fetch\<close> from the number of the call, counted from 1, to what
  that call of \<open>fetch(input, init)\<close> does: it resolves to a response or rejects with an error.
  The result of \<open>debugFetch\<close> is what it returns or throws, together with the waits
  (\<open>setTimeout\<close> delays in milliseconds) and the calls of \<open>fetch\<close> in the order in which they
  happen. Tracing is off.
\<close>

record response =
  status :: nat
  statusText :: jsstring

record thrown =
  name :: jsstring
  message :: jsstring

datatype fetch_outcome = Resolves response | Rejects thrown

datatype fetch_result = Returned response | Threw thrown

datatype net_effect = Wait nat | Fetch nat

text \<open>\<open>res.ok\<close>: the status is in the range 200 to 299.\<close>

definition ok :: "response \<Rightarrow> bool" where
  "ok res = (200 \<le> status res \<and> status res \<le> 299)"

text \<open>
  The \<open>while (attempt < retries)\<close> loop with its variables \<open>attempt\<close> and \<open>lastError\<close>, and
  the \<open>throw\<close> after it.
\<close>

function debugFetchLoop :: "jsstring \<Rightarrow> nat \<Rightarrow> (nat \<Rightarrow> fetch_outcome) \<Rightarrow> nat \<Rightarrow> thrown option
    \<Rightarrow> net_effect list \<Rightarrow> fetch_result \<times> net_effect list" where
  "debugFetchLoop label retries fetch attempt lastError trace =
     (if attempt < retries then
        (let attempt1 = attempt + 1;
             trace1 = trace @ (if attempt1 > 1 then [Wait (1000 * (attempt1 - 1))] else [])
                       @ [Fetch attempt1]
         in case fetch attempt1 of
              Resolves res \<Rightarrow>
                if \<not> ok res \<and> status res \<ge> 500 \<and> attempt1 < retries then
                  debugFetchLoop label retries fetch attempt1
                    (Some \<lparr>name = S ''Error'',
                           message = S ''Server error: '' @ showNat (status res) @ S '' ''
                                       @ statusText res\<rparr>)
                    trace1
                else (Returned res, trace1)
            | Rejects err \<Rightarrow>
                if name err = S ''TypeError'' \<and> attempt1 < retries then
                  debugFetchLoop label retries fetch attempt1 (Some err) trace1
                else (Threw err, trace1))
      else
        (Threw (case lastError of
                  Some err \<Rightarrow> err
                | None \<Rightarrow> \<lparr>name = S ''Error'',
                            message = label @ S '' request failed after '' @ showNat retries
                                        @ S '' attempts.''\<rparr>),
         trace))"
  by pat_completeness auto
termination
  by (relation "measure (\<lambda>(label, retries, fetch, attempt, lastError, trace). retries - attempt)")
    auto

declare debugFetchLoop.simps [simp del]

definition debugFetch :: "jsstring \<Rightarrow> nat \<Rightarrow> (nat \<Rightarrow> fetch_outcome)
    \<Rightarrow> fetch_result \<times> net_effect list" where
  "debugFetch label retries fetch = debugFetchLoop label retries fetch 0 None []"

text \<open>
  For the statement of the retry policy: the outcomes after which another attempt is made if
  one is left, and the waits and calls of the attempts \<open>a + 1\<close> to \<open>n\<close>.
\<close>

fun retryable :: "fetch_outcome \<Rightarrow> bool" where
  "retryable (Resolves res) = (status res \<ge> 500)"
| "retryable (Rejects err) = (name err = S ''TypeError'')"

definition schedule :: "nat \<Rightarrow> nat \<Rightarrow> net_effect list" where
  "schedule a n =
     concat (map (\<lambda>k. (if k > 1 then [Wait (1000 * (k - 1))] else []) @ [Fetch k]) [Suc a..<Suc n])"

fun lastOutcome :: "fetch_outcome \<Rightarrow> fetch_result" where
  "lastOutcome (Resolves res) = Returned res"
| "lastOutcome (Rejects err) = Threw err"

text \<open>A network for the examples: a 503, then a network error, then a 404.\<close>

definition flakyFetch :: "nat \<Rightarrow> fetch_outcome" where
  "flakyFetch k =
     (if k = 1 then Resolves \<lparr>status = 503, statusText = S ''Service Unavailable''\<rparr>
      else if k = 2 then Rejects \<lparr>name = S ''TypeError'', message = S ''Failed to fetch''\<rparr>
      else Resolves \<lparr>status = 404, statusText = S ''Not Found''\<rparr>)"

section \<open>Properties of the framer\<close>

lemma indexOf_less: "indexOf c s = Some k \<Longrightarrow> k < length s"
  by (induction s arbitrary: k) (auto split: if_splits)

lemma indexOf_append: "indexOf c a = Some k \<Longrightarrow> indexOf c (a @ b) = Some k"
  by (induction a arbitrary: k) (auto split: if_splits)

text \<open>Scanning a buffer that grows at the end: scan the old part, then the tail with the rest.\<close>

lemma scan_append:
  "scan N e out (a @ b) = (case scan N e out a of (e', out', r) \<Rightarrow> scan N e' out' (r @ b))"
proof (induction N e out a rule: scan.induct)
  case (1 N e out rest)
  show ?case
  proof (cases "indexOf 10 rest")
    case None
    then show ?thesis by (simp add: scan.simps[of N e out rest])
  next
    case (Some nl)
    then have lt: "nl < length rest" by (rule indexOf_less)
    from Some have ap: "indexOf 10 (rest @ b) = Some nl" by (rule indexOf_append)
    show ?thesis
    proof (cases "stripCR (take nl rest) = []")
      case True
      with 1(1)[OF Some refl True] Some ap lt show ?thesis
        by (simp add: scan.simps[of N e out rest] scan.simps[of N e out "rest @ b"])
    next
      case False
      with 1(2)[OF Some refl False] Some ap lt show ?thesis
        by (simp add: scan.simps[of N e out rest] scan.simps[of N e out "rest @ b"])
    qed
  qed
qed

lemma scan_out:
  "scan N e (pre @ out) a = (case scan N e out a of (e', out', r) \<Rightarrow> (e', pre @ out', r))"
proof (induction N e out a rule: scan.induct)
  case (1 N e out rest)
  show ?case
  proof (cases "indexOf 10 rest")
    case None
    then show ?thesis by (simp add: scan.simps[of N e _ rest])
  next
    case (Some nl)
    show ?thesis
    proof (cases "stripCR (take nl rest) = []")
      case True
      with 1(1)[OF Some refl True] Some show ?thesis
        by (simp add: scan.simps[of N e _ rest])
    next
      case False
      with 1(2)[OF Some refl False] Some show ?thesis
        by (simp add: scan.simps[of N e _ rest])
    qed
  qed
qed

text \<open>What \<open>scan\<close> leaves behind holds no line feed: it is an unterminated line.\<close>

lemma scan_rest: "scan N e out a = (e', out', r) \<Longrightarrow> indexOf 10 r = None"
proof (induction N e out a rule: scan.induct)
  case (1 N e out rest)
  show ?case
  proof (cases "indexOf 10 rest")
    case None
    with 1(3) show ?thesis by (simp add: scan.simps[of N e out rest])
  next
    case (Some nl)
    show ?thesis
    proof (cases "stripCR (take nl rest) = []")
      case True
      with 1(1)[OF Some refl True] 1(3) Some show ?thesis
        by (simp add: scan.simps[of N e out rest])
    next
      case False
      with 1(2)[OF Some refl False] 1(3) Some show ?thesis
        by (simp add: scan.simps[of N e out rest])
    qed
  qed
qed

lemma feed_buffer: "feed N fr c False = (fr', out) \<Longrightarrow> indexOf 10 (buffer fr') = None"
  by (auto simp: feed_def split: prod.splits dest: scan_rest)

lemma feed_empty: "indexOf 10 (buffer fr) = None \<Longrightarrow> feed N fr [] False = (fr, [])"
  by (simp add: feed_def scan.simps[of N "ev fr" "[]" "buffer fr"])

text \<open>Two calls of \<open>feed\<close> do what one call on the concatenation does.\<close>

lemma feed_feed:
  "feed N fr (a @ b) False =
     (case feed N fr a False of (fr', out) \<Rightarrow>
        (case feed N fr' b False of (fr'', out') \<Rightarrow> (fr'', out @ out')))"
proof -
  obtain e1 o1 r1 where s1: "scan N (ev fr) [] (buffer fr @ a) = (e1, o1, r1)"
    by (cases "scan N (ev fr) [] (buffer fr @ a)") auto
  obtain e2 o2 r2 where s2: "scan N e1 [] (r1 @ b) = (e2, o2, r2)"
    by (cases "scan N e1 [] (r1 @ b)") auto
  have "scan N (ev fr) [] ((buffer fr @ a) @ b) = scan N e1 (o1 @ []) (r1 @ b)"
    by (simp add: scan_append[of N "ev fr" "[]" "buffer fr @ a" b] s1 del: append_assoc)
  also have "\<dots> = (e2, o1 @ o2, r2)"
    by (simp only: scan_out[of N e1 o1 "[]" "r1 @ b"] s2 prod.case)
  finally have "scan N (ev fr) [] (buffer fr @ a @ b) = (e2, o1 @ o2, r2)" by simp
  then show ?thesis by (simp add: feed_def s1 s2)
qed

lemma feeds_concat:
  "indexOf 10 (buffer fr) = None \<Longrightarrow> feeds N fr cs = feed N fr (concat cs) False"
proof (induction cs arbitrary: fr)
  case Nil
  then show ?case by (simp add: feed_empty)
next
  case (Cons c cs)
  obtain fr' out where f: "feed N fr c False = (fr', out)"
    by (cases "feed N fr c False") auto
  from f have "indexOf 10 (buffer fr') = None" by (rule feed_buffer)
  then have "feeds N fr' cs = feed N fr' (concat cs) False" by (rule Cons.IH)
  with f show ?case by (simp add: feed_feed[of N fr c "concat cs"])
qed

lemma concat_singletons: "concat (map (\<lambda>c. [c]) s) = s"
  by (induction s) auto

text \<open>
  C3. The framer does not see chunk boundaries: feeding a stream one code unit per \<open>feed\<close> call
  leaves the framer in the same state and dispatches the same events, in the same order, as
  feeding the whole stream in one call. This holds for every stream, well-formed or not. The
  stream \<open>"id: 1\ndata: foo\ndata: bar\n\n"\<close> yields exactly one event, with id \<open>1\<close>, name
  \<open>message\<close> and data \<open>"foo\nbar"\<close>.
\<close>

theorem framer_chunk_boundaries:
  "feeds toNumber createSSEParser (map (\<lambda>c. [c]) stream)
     = feed toNumber createSSEParser stream False
   \<and> feed toNumber createSSEParser
       (S ''id: 1'' @ [10] @ S ''data: foo'' @ [10] @ S ''data: bar'' @ [10, 10]) False
     = (createSSEParser,
        [\<lparr>event = S ''message'', data = S ''foo'' @ [10] @ S ''bar'',
          id = Some (S ''1''), retry = None\<rparr>])"
proof
  have "indexOf 10 (buffer createSSEParser) = None"
    by (simp add: createSSEParser_def)
  then show "feeds toNumber createSSEParser (map (\<lambda>c. [c]) stream)
     = feed toNumber createSSEParser stream False"
    by (simp add: feeds_concat concat_singletons)
next
  show "feed toNumber createSSEParser
       (S ''id: 1'' @ [10] @ S ''data: foo'' @ [10] @ S ''data: bar'' @ [10, 10]) False
     = (createSSEParser,
        [\<lparr>event = S ''message'', data = S ''foo'' @ [10] @ S ''bar'',
          id = Some (S ''1''), retry = None\<rparr>])"
    by (simp add: feed_def scan.simps createSSEParser_def newEvent_def dispatch_def
        setField_def stripCR_def stripSpace_def appendData_def)
qed

text \<open>
  The same stream fed one code unit at a time, evaluated: the single event of the one-call run.
\<close>

theorem framer_chunk_boundaries_witness:
  "feeds (\<lambda>s. NaN) createSSEParser
     (map (\<lambda>c. [c]) (S ''id: 1'' @ [10] @ S ''data: foo'' @ [10] @ S ''data: bar'' @ [10, 10]))
   = (createSSEParser,
      [\<lparr>event = S ''message'', data = S ''foo'' @ [10] @ S ''bar'',
        id = Some (S ''1''), retry = None\<rparr>])"
  using framer_chunk_boundaries
    [of "\<lambda>s. NaN" "S ''id: 1'' @ [10] @ S ''data: foo'' @ [10] @ S ''data: bar'' @ [10, 10]"]
  by simp

text \<open>
  C8. Feeding \<open>"data: partial"\<close> and then flushing dispatches exactly one event, but its data is
  the whole unterminated line \<open>"data: partial"\<close>: the flush appends the raw buffer to
  \<open>ev.data\<close> without splitting the field name off, as the line loop does.
\<close>

theorem flush_unterminated_line:
  "feed toNumber (fst (feed toNumber createSSEParser (S ''data: partial'') False)) [] True
   = (createSSEParser,
      [\<lparr>event = S ''message'', data = S ''data: partial'', id = None, retry = None\<rparr>])"
  by (simp add: feed_def scan.simps createSSEParser_def newEvent_def dispatch_def appendData_def)

section \<open>Properties of chunk ingestion\<close>

lemmas extract_defs = onToolChunk_def upsertPos_def storePos_def createExtractionState_def
  freshTool_def stripFences_def stripFenceStart_def stripFenceEnd_def startsWith_def endsWith_def
  startsWithCI_def endsWithCI_def maybeDecodeJsonString_def isResetStart_def isComplete_def
  trimEnd_def isSpace_def lowerAscii_def toolAt_def Let_def

lemma map_of_store:
  "map_of (map (\<lambda>(p, t). if p = pos then (p, s) else (p, t)) xs) q =
     (if q = pos then map_option (\<lambda>_. s) (map_of xs pos) else map_of xs q)"
  by (induction xs) auto

lemma toolAt_storePos:
  "toolAt (storePos state pos s) q =
     (if q = pos then (case map_of (toolState state) pos of Some _ \<Rightarrow> s | None \<Rightarrow> freshTool)
      else toolAt state q)"
  by (simp add: toolAt_def storePos_def map_of_store split: option.splits)

lemma upsertPos_eq:
  "upsertPos state pos = (state1, s) \<Longrightarrow>
     s = toolAt state pos \<and> map_of (toolState state1) pos = Some s
     \<and> (\<forall>q. q \<noteq> pos \<longrightarrow> toolAt state1 q = toolAt state q)
     \<and> assistantBuf state1 = assistantBuf state"
  by (auto simp: upsertPos_def toolAt_def map_add_def split: option.splits)

lemma reportsFor_append: "reportsFor pos (a @ b) = reportsFor pos a @ reportsFor pos b"
  by (induction pos a rule: reportsFor.induct) auto

lemma onToolChunk_finalized:
  assumes "finalized (toolAt state pos)"
  shows "onToolChunk state pos raw = (state, [Log (ToolIgnored pos)])"
proof -
  from assms obtain s where s: "map_of (toolState state) pos = Some s" "finalized s"
    by (auto simp: toolAt_def freshTool_def split: option.splits)
  then show ?thesis by (simp add: onToolChunk_def upsertPos_def)
qed

lemma onToolChunk_other:
  assumes "q \<noteq> pos"
  shows "toolAt (fst (onToolChunk state pos raw)) q = toolAt state q"
proof -
  obtain state1 s where u: "upsertPos state pos = (state1, s)"
    by (cases "upsertPos state pos") auto
  from upsertPos_eq[OF u] assms have "toolAt state1 q = toolAt state q" by simp
  with assms u show ?thesis
    by (simp add: onToolChunk_def Let_def toolAt_storePos split: prod.splits)
qed

lemma onToolChunk_other_reports:
  assumes "q \<noteq> pos"
  shows "reportsFor q (snd (onToolChunk state pos raw)) = []"
  using assms by (simp add: onToolChunk_def Let_def split: prod.splits)

text \<open>What a call on a position that is not finalized does to that position.\<close>

lemma onToolChunk_live:
  assumes "\<not> finalized (toolAt state pos)"
  shows "\<exists>b. buf (toolAt (fst (onToolChunk state pos raw)) pos) = b
             \<and> finalized (toolAt (fst (onToolChunk state pos raw)) pos) = isComplete b
             \<and> reportsFor pos (snd (onToolChunk state pos raw)) = [(b, isComplete b)]"
proof -
  obtain state1 s where u: "upsertPos state pos = (state1, s)"
    by (cases "upsertPos state pos") auto
  from upsertPos_eq[OF u] have s: "s = toolAt state pos" "map_of (toolState state1) pos = Some s"
    by simp_all
  with assms have nf: "\<not> finalized s" by simp
  show ?thesis using u s(2) nf
    by (simp add: onToolChunk_def Let_def toolAt_storePos split: prod.splits)
qed

lemma onToolChunk_growth_step:
  assumes "\<not> finalized (toolAt state pos)"
    and "\<not> isResetStart (maybeDecodeJsonString (stripFences raw))"
    and "lastLen (toolAt state pos) < length (maybeDecodeJsonString (stripFences raw))"
  shows "buf (toolAt (fst (onToolChunk state pos raw)) pos)
           = buf (toolAt state pos)
               @ drop (lastLen (toolAt state pos)) (maybeDecodeJsonString (stripFences raw))
         \<and> lastLen (toolAt (fst (onToolChunk state pos raw)) pos)
           = length (maybeDecodeJsonString (stripFences raw))"
proof -
  obtain state1 s where u: "upsertPos state pos = (state1, s)"
    by (cases "upsertPos state pos") auto
  from upsertPos_eq[OF u] have s: "s = toolAt state pos" "map_of (toolState state1) pos = Some s"
    by simp_all
  from assms s(1) have "\<not> finalized s"
    "\<not> isResetStart (maybeDecodeJsonString (stripFences raw))"
    "lastLen s < length (maybeDecodeJsonString (stripFences raw))" by simp_all
  then show ?thesis using u s(2) unfolding s(1)[symmetric]
    by (simp add: onToolChunk_def Let_def toolAt_storePos split: prod.splits)
qed

text \<open>
  C1. Growth case. When a position is not finalized and the cleaned chunk is not a reset start
  and is strictly longer than the last observed length, \<open>onToolChunk\<close> appends exactly the
  suffix \<open>cleaned.slice(lastLen)\<close> to that position's buffer and sets the length tracker to
  the length of the cleaned chunk. Feeding \<open>"<html>AB"\<close> and then \<open>"<html>ABCD"\<close> to one
  position of the empty state leaves the buffer \<open>"<html>ABCD"\<close>, without a second \<open>AB\<close>.
\<close>

theorem onToolChunk_growth:
  "(\<forall>state pos raw.
      \<not> finalized (toolAt state pos)
      \<and> \<not> isResetStart (maybeDecodeJsonString (stripFences raw))
      \<and> lastLen (toolAt state pos) < length (maybeDecodeJsonString (stripFences raw))
      \<longrightarrow> buf (toolAt (fst (onToolChunk state pos raw)) pos)
            = buf (toolAt state pos)
                @ drop (lastLen (toolAt state pos)) (maybeDecodeJsonString (stripFences raw))
          \<and> lastLen (toolAt (fst (onToolChunk state pos raw)) pos)
            = length (maybeDecodeJsonString (stripFences raw)))
   \<and> buf (toolAt (fst (onToolChunks createExtractionState
              [(p, S ''<html>AB''), (p, S ''<html>ABCD'')])) p) = S ''<html>ABCD''"
proof (intro conjI allI impI)
  fix state pos raw
  assume "\<not> finalized (toolAt state pos)
      \<and> \<not> isResetStart (maybeDecodeJsonString (stripFences raw))
      \<and> lastLen (toolAt state pos) < length (maybeDecodeJsonString (stripFences raw))"
  then show "buf (toolAt (fst (onToolChunk state pos raw)) pos)
            = buf (toolAt state pos)
                @ drop (lastLen (toolAt state pos)) (maybeDecodeJsonString (stripFences raw))"
    and "lastLen (toolAt (fst (onToolChunk state pos raw)) pos)
            = length (maybeDecodeJsonString (stripFences raw))"
    using onToolChunk_growth_step[of state pos raw] by simp_all
next
  show "buf (toolAt (fst (onToolChunks createExtractionState
              [(p, S ''<html>AB''), (p, S ''<html>ABCD'')])) p) = S ''<html>ABCD''"
    by (simp add: extract_defs)
qed

text \<open>The growth case at work: \<open>"AB"\<close>, then the longer snapshot \<open>"ABCD"\<close>.\<close>

theorem onToolChunk_growth_witness:
  "buf (toolAt (fst (onToolChunk (fst (onToolChunk createExtractionState 1 (S ''AB''))) 1
          (S ''ABCD''))) 1) = S ''ABCD''
   \<and> lastLen (toolAt (fst (onToolChunk (fst (onToolChunk createExtractionState 1 (S ''AB''))) 1
          (S ''ABCD''))) 1) = 4"
  using onToolChunk_growth[THEN conjunct1, rule_format,
      of "fst (onToolChunk createExtractionState 1 (S ''AB''))" 1 "S ''ABCD''"]
  by (simp add: extract_defs)

lemma onToolChunks_finalized:
  "finalized (toolAt state pos) \<Longrightarrow>
     toolAt (fst (onToolChunks state calls)) pos = toolAt state pos
     \<and> reportsFor pos (snd (onToolChunks state calls)) = []"
proof (induction calls arbitrary: state)
  case Nil
  then show ?case by simp
next
  case (Cons call calls)
  obtain p raw where call: "call = (p, raw)" by (cases call) auto
  obtain state1 out where o: "onToolChunk state p raw = (state1, out)"
    by (cases "onToolChunk state p raw") auto
  have same: "toolAt state1 pos = toolAt state pos" and quiet: "reportsFor pos out = []"
  proof -
    show "toolAt state1 pos = toolAt state pos"
    proof (cases "p = pos")
      case True
      with Cons.prems o show ?thesis by (simp add: onToolChunk_finalized)
    next
      case False
      with onToolChunk_other[of pos p state raw] o show ?thesis by simp
    qed
    show "reportsFor pos out = []"
    proof (cases "p = pos")
      case True
      with Cons.prems o show ?thesis by (auto simp: onToolChunk_finalized)
    next
      case False
      with onToolChunk_other_reports[of pos p state raw] o show ?thesis by simp
    qed
  qed
  from Cons.prems same have "finalized (toolAt state1 pos)" by simp
  from Cons.IH[OF this] same quiet call o show ?case
    by (cases "onToolChunks state1 calls") (simp add: reportsFor_append)
qed

lemma onToolChunk_reported:
  assumes "finalized (toolAt state pos) \<longrightarrow> reported state pre pos"
    and "onToolChunk state p raw = (state1, out)"
    and "finalized (toolAt state1 pos)"
  shows "reported state1 (pre @ out) pos"
proof (cases "p = pos")
  case False
  with onToolChunk_other[of pos p state raw] onToolChunk_other_reports[of pos p state raw] assms
  show ?thesis by (simp add: reported_def reportsFor_append)
next
  case True
  show ?thesis
  proof (cases "finalized (toolAt state pos)")
    case fin: True
    with True assms show ?thesis
      by (auto simp: onToolChunk_finalized reported_def reportsFor_append)
  next
    case False
    from onToolChunk_live[OF False, of raw] True assms(2,3) show ?thesis
      by (auto simp: reported_def reportsFor_append)
  qed
qed

lemma onToolChunks_reported:
  assumes "\<forall>pos. finalized (toolAt state pos) \<longrightarrow> reported state pre pos"
    and "onToolChunks state calls = (state', outs)"
    and "finalized (toolAt state' pos)"
  shows "reported state' (pre @ outs) pos"
  using assms
proof (induction calls arbitrary: state pre outs)
  case Nil
  then show ?case by simp
next
  case (Cons call calls)
  obtain p raw where call: "call = (p, raw)" by (cases call) auto
  obtain state1 out where o: "onToolChunk state p raw = (state1, out)"
    by (cases "onToolChunk state p raw") auto
  obtain outs1 where o1: "onToolChunks state1 calls = (state', outs1)" and outs: "outs = out @ outs1"
    using Cons.prems(2) call o by (auto split: prod.splits)
  have "\<forall>q. finalized (toolAt state1 q) \<longrightarrow> reported state1 (pre @ out) q"
    using Cons.prems(1) o onToolChunk_reported by blast
  from Cons.IH[OF this o1 Cons.prems(3)] outs show ?case by simp
qed

text \<open>
  C2. A finalized position is immutable. From any state in which a position is finalized, any
  further sequence of \<open>onToolChunk\<close> calls, for that position or for others, leaves its record
  (buffer, length tracker, finalized flag) unchanged and makes no \<open>onPartial\<close> call for it. In
  every run from the empty state a finalized position holds a buffer that ends with
  \<open></html>\<close> (white space after it allowed), and the last \<open>onPartial\<close> call made for it
  reported that buffer with \<open>complete = true\<close>; so the reported completeness stays true.
\<close>

theorem finalized_slide_is_immutable:
  "(finalized (toolAt state pos) \<longrightarrow>
      toolAt (fst (onToolChunks state later)) pos = toolAt state pos
      \<and> reportsFor pos (snd (onToolChunks state later)) = [])
   \<and> (finalized (toolAt (fst (onToolChunks createExtractionState calls)) pos) \<longrightarrow>
      isComplete (buf (toolAt (fst (onToolChunks createExtractionState calls)) pos))
      \<and> reportsFor pos (snd (onToolChunks createExtractionState calls)) \<noteq> []
      \<and> last (reportsFor pos (snd (onToolChunks createExtractionState calls)))
          = (buf (toolAt (fst (onToolChunks createExtractionState calls)) pos), True))"
proof (intro conjI impI)
  assume "finalized (toolAt state pos)"
  from onToolChunks_finalized[OF this, of later]
  show "toolAt (fst (onToolChunks state later)) pos = toolAt state pos"
    and "reportsFor pos (snd (onToolChunks state later)) = []" by simp_all
next
  assume fin: "finalized (toolAt (fst (onToolChunks createExtractionState calls)) pos)"
  obtain st outs where r: "onToolChunks createExtractionState calls = (st, outs)"
    by (cases "onToolChunks createExtractionState calls") auto
  have init: "\<forall>q. finalized (toolAt createExtractionState q) \<longrightarrow> reported createExtractionState [] q"
    by (simp add: toolAt_def createExtractionState_def freshTool_def)
  from fin r have "finalized (toolAt st pos)" by simp
  from onToolChunks_reported[OF init r this] r
  show "isComplete (buf (toolAt (fst (onToolChunks createExtractionState calls)) pos))"
    and "reportsFor pos (snd (onToolChunks createExtractionState calls)) \<noteq> []"
    and "last (reportsFor pos (snd (onToolChunks createExtractionState calls)))
          = (buf (toolAt (fst (onToolChunks createExtractionState calls)) pos), True)"
    by (simp_all add: reported_def)
qed

text \<open>
  A run that finalizes position 2, followed by three more chunks, two of them for position 2.
\<close>

theorem finalized_slide_is_immutable_witness:
  "finalized (toolAt (fst (onToolChunks createExtractionState
       [(2, S ''AB''), (2, S ''ABCD</html>'')])) 2)
   \<and> toolAt (fst (onToolChunks (fst (onToolChunks createExtractionState
       [(2, S ''AB''), (2, S ''ABCD</html>'')])) [(2, S ''xx''), (3, S ''y''), (2, S ''<html>z'')])) 2
     = \<lparr>buf = S ''ABCD</html>'', lastLen = 11, finalized = True\<rparr>
   \<and> last (reportsFor 2 (snd (onToolChunks createExtractionState
       [(2, S ''AB''), (2, S ''ABCD</html>'')]))) = (S ''ABCD</html>'', True)"
  using finalized_slide_is_immutable
      [of "fst (onToolChunks createExtractionState [(2, S ''AB''), (2, S ''ABCD</html>'')])" 2
          "[(2, S ''xx''), (3, S ''y''), (2, S ''<html>z'')]"
          "[(2, S ''AB''), (2, S ''ABCD</html>'')]"]
  by (simp add: extract_defs)

section \<open>Properties of walkEvent and of slide assembly\<close>

lemmas walk_defs = walkEvent_def walkChoice_def walkMsg_def walkPart_def toolPart_def
  nullish_def orElse_def

text \<open>
  C9. \<open>walkEvent\<close> is not total on decoded payloads. For the payload
  \<open>{"choices":[{"messages":[null]}]}\<close> the message is \<open>null\<close>: the log line reads its phase
  through \<open>msg?.phase\<close> and prints \<open>?\<close>, and the next line reads \<open>msg.content\<close> without the
  guard and throws a \<open>TypeError\<close>. A \<open>null\<close> choice and a \<open>null\<close> payload throw in the same
  way, at \<open>choice.messages\<close> and at \<open>obj.choices\<close>.
\<close>

theorem walkEvent_null_message_throws:
  "walkEvent toNumber state (Obj [(S ''choices'', Arr [Obj [(S ''messages'', Arr [Null])]])])
   = (state, [Log (SsePhase (S ''?''))], Some TypeError)"
  by (simp add: walk_defs)

lemma walkEvent_null_choice_throws:
  "walkEvent toNumber state (Obj [(S ''choices'', Arr [Null])]) = (state, [], Some TypeError)"
  by (simp add: walk_defs)

lemma walkEvent_null_payload_throws:
  "walkEvent toNumber state Null = (state, [], Some TypeError)"
  by (simp add: walk_defs)

lemma startsWithCI_append: "startsWithCI pat a \<Longrightarrow> startsWithCI pat (a @ b)"
proof -
  assume h: "startsWithCI pat a"
  then have "length (take (length pat) a) = length pat"
    unfolding startsWithCI_def by (metis length_map)
  then have "length pat \<le> length a" by simp
  with h show ?thesis by (simp add: startsWithCI_def)
qed

lemma findFirstCI_suffix: "findFirstCI pat (a @ b) = None \<Longrightarrow> findFirstCI pat b = None"
  by (induction a) (auto split: if_splits)

lemma findFirstCI_prefix: "findFirstCI pat (a @ b) = None \<Longrightarrow> findFirstCI pat a = None"
proof (induction a)
  case Nil
  then show ?case
    by (cases b) (auto simp: startsWithCI_def split: if_splits)
next
  case (Cons x a)
  from Cons.prems have n: "\<not> startsWithCI pat (x # a @ b)" and r: "findFirstCI pat (a @ b) = None"
    by (auto split: if_splits)
  from n startsWithCI_append[of pat "x # a" b] have "\<not> startsWithCI pat (x # a)" by auto
  with Cons.IH[OF r] show ?case by simp
qed

lemma trimEnd_prefix: "\<exists>c. s = trimEnd s @ c"
proof -
  have "rev (dropWhile isSpace (rev s)) @ rev (takeWhile isSpace (rev s)) = s"
    by (simp only: rev_append[symmetric] takeWhile_dropWhile_id rev_rev_ident)
  then have "s = trimEnd s @ rev (takeWhile isSpace (rev s))"
    by (simp add: trimEnd_def)
  then show ?thesis ..
qed

lemma dropWhile_suffix: "\<exists>a. x = a @ dropWhile P x"
  by (metis takeWhile_dropWhile_id)

lemma drop_suffix: "\<exists>a. x = a @ drop n x"
  by (metis append_take_drop_id)

lemma stripFenceStart_suffix: "\<exists>a. s = a @ stripFenceStart s"
proof (cases "startsWith [96, 96, 96] s")
  case False
  then show ?thesis by (simp add: stripFenceStart_def)
next
  case True
  obtain a1 where 1: "s = a1 @ drop 3 s" using drop_suffix by blast
  show ?thesis
  proof (cases "startsWithCI (S ''html'') (drop 3 s)")
    case h: True
    obtain a2 where 2: "drop 3 s = a2 @ drop 4 (drop 3 s)" using drop_suffix by blast
    obtain a3 where 3: "drop 4 (drop 3 s) = a3 @ dropWhile isSpace (drop 4 (drop 3 s))"
      using dropWhile_suffix by blast
    from 1 2 3 have "s = (a1 @ a2 @ a3) @ dropWhile isSpace (drop 4 (drop 3 s))"
      by (metis append.assoc)
    then have "\<exists>a. s = a @ dropWhile isSpace (drop 4 (drop 3 s))" ..
    with True h show ?thesis by (simp only: stripFenceStart_def Let_def if_True)
  next
    case h: False
    obtain a3 where 3: "drop 3 s = a3 @ dropWhile isSpace (drop 3 s)"
      using dropWhile_suffix by blast
    from 1 3 have "s = (a1 @ a3) @ dropWhile isSpace (drop 3 s)"
      by (metis append.assoc)
    then have "\<exists>a. s = a @ dropWhile isSpace (drop 3 s)" ..
    with True h show ?thesis by (simp only: stripFenceStart_def Let_def if_True if_False)
  qed
qed

lemma stripFenceEnd_prefix: "\<exists>c. s = stripFenceEnd s @ c"
proof (cases "endsWith [96, 96, 96] s")
  case False
  then show ?thesis by (simp add: stripFenceEnd_def)
next
  case True
  obtain c where c: "take (length s - 3) s = trimEnd (take (length s - 3) s) @ c"
    using trimEnd_prefix by blast
  have "s = take (length s - 3) s @ drop (length s - 3) s" by simp
  with c have "s = trimEnd (take (length s - 3) s) @ c @ drop (length s - 3) s"
    by (metis append.assoc)
  with True show ?thesis unfolding stripFenceEnd_def by auto
qed

lemma stripFences_no_pattern:
  assumes "findFirstCI pat s = None"
  shows "findFirstCI pat (stripFences s) = None"
proof -
  obtain a where a: "s = a @ stripFenceStart s" using stripFenceStart_suffix by blast
  obtain c where c: "stripFenceStart s = stripFences s @ c"
    unfolding stripFences_def using stripFenceEnd_prefix by blast
  from assms a have "findFirstCI pat (stripFenceStart s) = None"
    using findFirstCI_suffix by metis
  with c show ?thesis using findFirstCI_prefix by metis
qed

lemma matchDoc_no_close:
  assumes "findFirstCI (S ''</html>'') s = None"
  shows "matchDoc opening s = None"
proof (cases "findFirstCI opening s")
  case None
  then show ?thesis by (simp add: matchDoc_def)
next
  case (Some i)
  have "s = take (i + length opening) s @ drop (i + length opening) s" by simp
  with assms have "findFirstCI (S ''</html>'') (drop (i + length opening) s) = None"
    using findFirstCI_suffix by metis
  with Some show ?thesis by (simp add: matchDoc_def)
qed

lemma cutFirstHtmlDoc_no_close:
  "findFirstCI (S ''</html>'') s = None \<Longrightarrow> cutFirstHtmlDoc s = None"
  by (simp add: cutFirstHtmlDoc_def matchDoc_no_close)

text \<open>
  The slide of a position whose buffer is not blank and holds no \<open></html>\<close>. The bound on
  the position is the range in which \<open>showInt\<close> is the printing of the language.
\<close>

lemma finalizeSlides_shell_member:
  assumes "(pos, s) \<in> set (toolState state)"
    and "\<bar>pos\<bar> \<le> 9007199254740992"
    and "trim (buf s) \<noteq> []"
    and "findFirstCI (S ''</html>'') (buf s) = None"
  shows "(pos, minimalDoc pos (stripFences (buf s))) \<in> set (finalizeSlides state)"
proof -
  define entries where "entries = sort_key fst
              (filter (\<lambda>(pos, b). b \<noteq> [] \<and> length (trim b) > 0)
                 (map (\<lambda>(pos, st). (pos, buf st)) (toolState state)))"
  define slides where "slides = map (\<lambda>(pos, rawBuf).
                   (let b = stripFences rawBuf
                    in (pos, case cutFirstHtmlDoc b of Some h \<Rightarrow> h | None \<Rightarrow> minimalDoc pos b)))
              entries"
  from assms(3) have ne: "buf s \<noteq> []" by (auto simp: trim_def trimEnd_def)
  from assms(1) have "(pos, buf s) \<in> set (map (\<lambda>(pos, st). (pos, buf st)) (toolState state))"
    by force
  with assms(3) ne have e: "(pos, buf s) \<in> set entries" by (simp add: entries_def)
  have "cutFirstHtmlDoc (stripFences (buf s)) = None"
    using assms(4) by (simp add: cutFirstHtmlDoc_no_close stripFences_no_pattern)
  with e have m: "(pos, minimalDoc pos (stripFences (buf s))) \<in> set slides"
    unfolding slides_def by (force simp: Let_def)
  then have "slides \<noteq> []" by auto
  then have "finalizeSlides state = slides"
    by (simp add: finalizeSlides_def Let_def entries_def slides_def)
  with m show ?thesis by simp
qed

text \<open>
  Blank buffers are ignored: \<open>finalizeSlides\<close> gives the same list when the positions whose
  buffer is empty after \<open>trim\<close> are taken out of the table.
\<close>

lemma finalizeSlides_ignores_blank:
  "finalizeSlides (state\<lparr>toolState := filter (\<lambda>(p, t). trim (buf t) \<noteq> []) (toolState state)\<rparr>)
   = finalizeSlides state"
proof -
  have "filter (\<lambda>(pos, b). b \<noteq> [] \<and> length (trim b) > 0)
          (map (\<lambda>(pos, st). (pos, buf st)) (filter (\<lambda>(p, t). trim (buf t) \<noteq> []) xs))
        = filter (\<lambda>(pos, b). b \<noteq> [] \<and> length (trim b) > 0)
          (map (\<lambda>(pos, st). (pos, buf st)) xs)" for xs :: "(int \<times> tool_state) list"
    by (induction xs) auto
  then show ?thesis by (simp add: finalizeSlides_def Let_def)
qed

text \<open>
  C7, as the code has it. A position of magnitude up to \<open>2^53\<close> whose buffer holds more than
  white space and no \<open></html>\<close> anywhere gets a slide from \<open>finalizeSlides\<close>, and its html is
  the minimal document: doctype, head with the title \<open>Slide\<close> and the position in decimal, and
  a body that holds the buffer with its code fences stripped. A buffer that is empty after
  \<open>trim\<close> is ignored: the result is the one for the table without such buffers.
\<close>

theorem finalizeSlides_minimal_shell:
  "((pos, s) \<in> set (toolState state) \<and> \<bar>pos\<bar> \<le> 9007199254740992
      \<and> trim (buf s) \<noteq> [] \<and> findFirstCI (S ''</html>'') (buf s) = None
     \<longrightarrow> (pos, S ''<!doctype html><html><head><meta charset=\"utf-8\"><title>Slide ''
                 @ showInt pos @ S ''</title></head><body>'' @ stripFences (buf s)
                 @ S ''</body></html>'')
         \<in> set (finalizeSlides state))
   \<and> finalizeSlides
        (state\<lparr>toolState := filter (\<lambda>(p, t). trim (buf t) \<noteq> []) (toolState state)\<rparr>)
     = finalizeSlides state"
proof (intro conjI impI)
  assume h: "(pos, s) \<in> set (toolState state) \<and> \<bar>pos\<bar> \<le> 9007199254740992
      \<and> trim (buf s) \<noteq> [] \<and> findFirstCI (S ''</html>'') (buf s) = None"
  then have "(pos, minimalDoc pos (stripFences (buf s))) \<in> set (finalizeSlides state)"
    by (simp add: finalizeSlides_shell_member)
  then show "(pos, S ''<!doctype html><html><head><meta charset=\"utf-8\"><title>Slide ''
                 @ showInt pos @ S ''</title></head><body>'' @ stripFences (buf s)
                 @ S ''</body></html>'')
         \<in> set (finalizeSlides state)"
    by (simp add: minimalDoc_def)
next
  show "finalizeSlides
        (state\<lparr>toolState := filter (\<lambda>(p, t). trim (buf t) \<noteq> []) (toolState state)\<rparr>)
     = finalizeSlides state"
    by (rule finalizeSlides_ignores_blank)
qed

text \<open>
  Position 1 with a buffer of one space and position 3 with the buffer \<open><p>x\<close>, which was
  never closed: the only slide is that of position 3.
\<close>

theorem finalizeSlides_minimal_shell_witness:
  "\<bar>3 :: int\<bar> \<le> 9007199254740992
   \<and> finalizeSlides (fst (onToolChunks createExtractionState [(1, S '' ''), (3, S ''<p>x'')]))
     = [(3, S ''<!doctype html><html><head><meta charset=\"utf-8\"><title>Slide 3</title></head><body><p>x</body></html>'')]"
proof -
  define st0 where
    "st0 = fst (onToolChunks createExtractionState [(1, S '' ''), (3, S ''<p>x'')])"
  have st: "st0
    = \<lparr>toolState = [(1, \<lparr>buf = S '' '', lastLen = 1, finalized = False\<rparr>),
                    (3, \<lparr>buf = S ''<p>x'', lastLen = 4, finalized = False\<rparr>)],
       assistantBuf = []\<rparr>"
    unfolding st0_def by (simp add: extract_defs)
  have 1: "trim (S ''<p>x'') \<noteq> []" by (simp add: trim_def trimEnd_def isSpace_def)
  have 2: "findFirstCI (S ''</html>'') (S ''<p>x'') = None"
    by (simp add: startsWithCI_def lowerAscii_def)
  have 3: "stripFences (S ''<p>x'') = S ''<p>x''" by (simp add: extract_defs)
  have 4: "showInt 3 = S ''3''" by (simp add: showInt_def showNat.simps)
  have m: "(3, S ''<!doctype html><html><head><meta charset=\"utf-8\"><title>Slide 3</title></head><body><p>x</body></html>'')
         \<in> set (finalizeSlides st0)"
    using finalizeSlides_minimal_shell
      [THEN conjunct1, rule_format,
        of 3 "\<lparr>buf = S ''<p>x'', lastLen = 4, finalized = False\<rparr>" st0] 1 2 3 4
    by (simp add: st)
  have l: "length (finalizeSlides st0) = 1"
    by (simp add: st finalizeSlides_def trim_def trimEnd_def isSpace_def)
  from m l have "finalizeSlides st0
     = [(3, S ''<!doctype html><html><head><meta charset=\"utf-8\"><title>Slide 3</title></head><body><p>x</body></html>'')]"
    by (cases "finalizeSlides st0") auto
  then show ?thesis unfolding st0_def by simp
qed

text \<open>
  C7 as stated fails on a buffer of white space: after the chunk \<open>" "\<close> the buffer of
  position 1 is the non-empty string \<open>" "\<close>, it holds no \<open></html>\<close>, and \<open>finalizeSlides\<close>
  returns no slide, because the filter keeps only buffers that are non-empty after \<open>trim\<close>.
\<close>

theorem finalizeSlides_blank_buffer_counterexample:
  "buf (toolAt (fst (onToolChunk createExtractionState 1 (S '' ''))) 1) = S '' ''
   \<and> findFirstCI (S ''</html>'') (S '' '') = None
   \<and> finalizeSlides (fst (onToolChunk createExtractionState 1 (S '' ''))) = []"
  by (simp add: extract_defs finalizeSlides_def trim_def cutFirstHtmlDoc_def matchDoc_def)

section \<open>Properties of the transport\<close>

lemmas framer_defs = feed_def scan.simps createSSEParser_def newEvent_def dispatch_def
  setField_def stripCR_def stripSpace_def appendData_def

lemmas transport_defs = callGlmAgent_def callGlmAgent2_def parseChunk_def parseChunk2_def
  onSseEvent_def onSseEvent2_def handleEvent_def handleEvent2_def eventId_def openTransport_def
  exampleParse_def lateText_def toolText_def trim_def

lemmas finalize_defs = finalizeSlides_def cutFirstHtmlDoc_def matchDoc_def minimalDoc_def
  showInt_def showNat.simps








lemma readLoop_break:
  assumes "\<not> shouldBreakLoop t" and "shouldBreakLoop (fst (readLoop P N t body))"
  shows "readLoop P N t (body @ rest) = readLoop P N t body"
  using assms
proof (induction body arbitrary: t)
  case Nil
  then show ?case by simp
next
  case (Cons chunk body)
  obtain t1 out where p: "parseChunk P N (t\<lparr>rawSseBuffer := rawSseBuffer t @ chunk\<rparr>) chunk False = (t1, out)"
    by (cases "parseChunk P N (t\<lparr>rawSseBuffer := rawSseBuffer t @ chunk\<rparr>) chunk False") auto
  show ?case
  proof (cases "shouldBreakLoop t1")
    case True
    with p show ?thesis by simp
  next
    case False
    from Cons.prems(2) p False have "shouldBreakLoop (fst (readLoop P N t1 body))"
      by (simp split: prod.splits)
    from Cons.IH[OF False this] p False show ?thesis by simp
  qed
qed

lemma handleEvent_flag:
  "shouldBreakLoop (fst (handleEvent P N t evt))
     = (shouldBreakLoop t \<or> trim (data evt) = S ''[DONE]'')"
  by (simp add: handleEvent_def Let_def split: option.splits sum.splits prod.splits)

text \<open>
  C5, as the code has it. In the first copy of \<open>callGlmAgent\<close> an event whose trimmed data is
  \<open>[DONE]\<close> and which passes the seen-id check sets \<open>shouldBreakLoop\<close>, and nothing else sets
  it. Once the flag is set after a chunk, the read loop stops: whatever the body holds after
  that chunk is neither read nor fed to the framer, and the result of the call does not depend
  on it.
\<close>

theorem done_breaks_read_loop:
  "shouldBreakLoop (fst (onSseEvent jsonParse toNumber t evt))
     = (shouldBreakLoop t
        \<or> (trim (data evt) = S ''[DONE]''
           \<and> (case eventId evt of Some i \<Rightarrow> i \<notin> seenEventIds t | None \<Rightarrow> True)))
   \<and> (shouldBreakLoop (fst (readLoop jsonParse toNumber (openTransport conversationId) body))
        \<longrightarrow> callGlmAgent jsonParse toNumber conversationId (body @ rest)
            = callGlmAgent jsonParse toNumber conversationId body)"
proof (intro conjI impI)
  show "shouldBreakLoop (fst (onSseEvent jsonParse toNumber t evt))
     = (shouldBreakLoop t
        \<or> (trim (data evt) = S ''[DONE]''
           \<and> (case eventId evt of Some i \<Rightarrow> i \<notin> seenEventIds t | None \<Rightarrow> True)))"
    by (auto simp: onSseEvent_def handleEvent_flag split: option.splits)
next
  assume "shouldBreakLoop (fst (readLoop jsonParse toNumber (openTransport conversationId) body))"
  moreover have "\<not> shouldBreakLoop (openTransport conversationId)"
    by (simp add: openTransport_def)
  ultimately have "readLoop jsonParse toNumber (openTransport conversationId) (body @ rest)
      = readLoop jsonParse toNumber (openTransport conversationId) body"
    by (simp add: readLoop_break)
  then show "callGlmAgent jsonParse toNumber conversationId (body @ rest)
            = callGlmAgent jsonParse toNumber conversationId body"
    by (simp add: callGlmAgent_def)
qed

text \<open>A body whose first chunk is \<open>[DONE]\<close>: the chunk after it is never read.\<close>

theorem done_breaks_read_loop_witness:
  "shouldBreakLoop (fst (readLoop exampleParse (\<lambda>s. NaN) (openTransport [])
       [S ''data: [DONE]'' @ [10, 10]]))
   \<and> callGlmAgent exampleParse (\<lambda>s. NaN) []
       ([S ''data: [DONE]'' @ [10, 10]] @ [S ''data: '' @ lateText @ [10, 10]])
     = callGlmAgent exampleParse (\<lambda>s. NaN) [] [S ''data: [DONE]'' @ [10, 10]]
   \<and> fst (snd (callGlmAgent exampleParse (\<lambda>s. NaN) []
       ([S ''data: [DONE]'' @ [10, 10]] @ [S ''data: '' @ lateText @ [10, 10]]))) = []"
  using done_breaks_read_loop
    [THEN conjunct2, of exampleParse "\<lambda>s. NaN" "[]" "[S ''data: [DONE]'' @ [10, 10]]"
        "[S ''data: '' @ lateText @ [10, 10]]"]
  by (simp add: transport_defs framer_defs walk_defs extract_defs finalize_defs)

text \<open>
  C5 as stated fails. In the first copy, an event that follows \<open>[DONE]\<close> in the same chunk is
  still dispatched and walked: its \<open>delta\<close> ends up as the slide of the result. In the second
  copy there is no flag, and a chunk that arrives after the \<open>[DONE]\<close> chunk is read, fed and
  walked as well.
\<close>

theorem done_then_later_event_counterexample:
  "fst (snd (callGlmAgent exampleParse (\<lambda>s. NaN) []
        [S ''data: [DONE]'' @ [10, 10] @ S ''data: '' @ lateText @ [10, 10]]))
     = [\<lparr>pageNumber = 1, html = S ''<html>late</html>'', draft = S ''<html>late</html>'',
         complete = True\<rparr>]
   \<and> fst (snd (callGlmAgent2 exampleParse (\<lambda>s. NaN) []
        [S ''data: [DONE]'' @ [10, 10], S ''data: '' @ lateText @ [10, 10]]))
     = [\<lparr>pageNumber = 1, html = S ''<html>late</html>'', draft = S ''<html>late</html>'',
         complete = True\<rparr>]"
  by (simp add: transport_defs framer_defs walk_defs extract_defs finalize_defs)

text \<open>
  C10. Every slide that \<open>callGlmAgent\<close> passes to \<open>onComplete\<close> has \<open>complete = true\<close> and
  \<open>draft\<close> equal to \<open>html\<close>, whatever the stream was.
\<close>

theorem final_slides_all_complete:
  "list_all (\<lambda>s. complete s \<and> draft s = html s)
     (fst (snd (callGlmAgent jsonParse toNumber conversationId body)))"
  by (simp add: callGlmAgent_def list_all_iff split: prod.splits)

text \<open>
  A stream whose only tool call leaves position 2 with the buffer \<open>Hi\<close>: the position is never
  finalized, its html is the minimal document, and the slide is passed as complete.
\<close>

theorem final_slides_all_complete_witness:
  "\<not> finalized (toolAt (extractionState (fst (readLoop exampleParse (\<lambda>s. NaN) (openTransport [])
         [S ''data: '' @ toolText @ [10, 10]]))) 2)
   \<and> fst (snd (callGlmAgent exampleParse (\<lambda>s. NaN) [] [S ''data: '' @ toolText @ [10, 10]]))
     = [\<lparr>pageNumber = 2,
         html = S ''<!doctype html><html><head><meta charset=\"utf-8\"><title>Slide 2</title></head><body>Hi</body></html>'',
         draft = S ''<!doctype html><html><head><meta charset=\"utf-8\"><title>Slide 2</title></head><body>Hi</body></html>'',
         complete = True\<rparr>]
   \<and> list_all (\<lambda>s. complete s \<and> draft s = html s)
       (fst (snd (callGlmAgent exampleParse (\<lambda>s. NaN) [] [S ''data: '' @ toolText @ [10, 10]])))"
  using final_slides_all_complete
    [of exampleParse "\<lambda>s. NaN" "[]" "[S ''data: '' @ toolText @ [10, 10]]"]
  by (simp add: transport_defs framer_defs walk_defs extract_defs finalize_defs
      toLowerCase_def lowerUnit_def isAdd_def contains_def)

section \<open>Properties of debugFetch\<close>

lemma schedule_step:
  "a < n \<Longrightarrow> schedule a n = ((if Suc a > 1 then [Wait (1000 * a)] else []) @ [Fetch (Suc a)]) @ schedule (Suc a) n"
  by (simp add: schedule_def upt_conv_Cons del: upt_Suc)

lemma schedule_one: "schedule a (Suc a) = (if Suc a > 1 then [Wait (1000 * a)] else []) @ [Fetch (Suc a)]"
  by (simp add: schedule_def)

lemma debugFetchLoop_policy:
  assumes "attempt < retries"
  shows "\<exists>n. attempt < n \<and> n \<le> retries
           \<and> (\<forall>k. attempt < k \<and> k < n \<longrightarrow> retryable (fetch k))
           \<and> (n < retries \<longrightarrow> \<not> retryable (fetch n))
           \<and> debugFetchLoop label retries fetch attempt lastError trace
               = (lastOutcome (fetch n), trace @ schedule attempt n)"
  using assms
proof (induction m \<equiv> "retries - attempt" arbitrary: attempt lastError trace)
  case 0
  then show ?case by simp
next
  case (Suc m)
  let ?k = "Suc attempt"
  let ?trace1 = "trace @ (if ?k > 1 then [Wait (1000 * (?k - 1))] else []) @ [Fetch ?k]"
  show ?case
  proof (cases "retryable (fetch ?k) \<and> ?k < retries")
    case False
    have "debugFetchLoop label retries fetch attempt lastError trace
            = (lastOutcome (fetch ?k), ?trace1)"
      using False Suc.prems
      by (subst debugFetchLoop.simps) (auto simp: Let_def ok_def split: fetch_outcome.splits)
    with False Suc.prems schedule_one[of attempt] show ?thesis
      by (intro exI[of _ ?k]) auto
  next
    case True
    then have "\<exists>le. debugFetchLoop label retries fetch attempt lastError trace
            = debugFetchLoop label retries fetch ?k le ?trace1"
      using Suc.prems
      by (subst debugFetchLoop.simps) (auto simp: Let_def ok_def split: fetch_outcome.splits)
    then obtain le where rec: "debugFetchLoop label retries fetch attempt lastError trace
            = debugFetchLoop label retries fetch ?k le ?trace1" ..
    from Suc.hyps(2) have m: "m = retries - ?k" by simp
    from True have lt: "?k < retries" by simp
    from Suc.hyps(1)[OF m lt, of le ?trace1]
    obtain n where n: "?k < n" "n \<le> retries" "\<forall>k. ?k < k \<and> k < n \<longrightarrow> retryable (fetch k)"
      "n < retries \<longrightarrow> \<not> retryable (fetch n)"
      "debugFetchLoop label retries fetch ?k le ?trace1
               = (lastOutcome (fetch n), ?trace1 @ schedule ?k n)" by blast
    have "\<forall>k. attempt < k \<and> k < n \<longrightarrow> retryable (fetch k)"
    proof (intro allI impI)
      fix k assume "attempt < k \<and> k < n"
      then have "k = ?k \<or> (?k < k \<and> k < n)" by auto
      with True n(3) show "retryable (fetch k)" by auto
    qed
    moreover have "?trace1 @ schedule ?k n = trace @ schedule attempt n"
      using n(1) schedule_step[of attempt n] by simp
    ultimately show ?thesis using n rec
      by (intro exI[of _ n]) auto
  qed
qed

text \<open>
  C6, as the code has it. With \<open>retries > 0\<close>, \<open>debugFetch\<close> makes \<open>n\<close> attempts with
  \<open>1 \<le> n \<le> retries\<close>; before attempt \<open>k > 1\<close> it waits \<open>1000 * (k - 1)\<close> ms; every attempt
  before the last ended in a response with status 500 or more or in a thrown \<open>TypeError\<close>; an
  attempt that ends otherwise is the last one; and the result is what the last attempt did:
  its error is re-thrown, its response is returned, also when that response is a 5xx on the
  final attempt.
\<close>

theorem debugFetch_retry_policy:
  assumes "0 < retries"
  shows "\<exists>n. 1 \<le> n \<and> n \<le> retries
           \<and> (\<forall>k. 1 \<le> k \<and> k < n \<longrightarrow> retryable (fetch k))
           \<and> (n < retries \<longrightarrow> \<not> retryable (fetch n))
           \<and> debugFetch label retries fetch = (lastOutcome (fetch n), schedule 0 n)"
proof -
  from debugFetchLoop_policy[OF assms, of fetch label None "[]"]
  obtain n where "0 < n" "n \<le> retries" "\<forall>k. 0 < k \<and> k < n \<longrightarrow> retryable (fetch k)"
      "n < retries \<longrightarrow> \<not> retryable (fetch n)"
      "debugFetchLoop label retries fetch 0 None []
               = (lastOutcome (fetch n), [] @ schedule 0 n)" by blast
  then show ?thesis
    by (intro exI[of _ n]) (auto simp: debugFetch_def)
qed

text \<open>A 503, then a network error, then a 404, with three attempts allowed.\<close>

theorem debugFetch_retry_policy_witness:
  "(0::nat) < 3
   \<and> (\<exists>n. 1 \<le> n \<and> n \<le> 3
          \<and> (\<forall>k. 1 \<le> k \<and> k < n \<longrightarrow> retryable (flakyFetch k))
          \<and> (n < 3 \<longrightarrow> \<not> retryable (flakyFetch n))
          \<and> debugFetch (S ''agents'') 3 flakyFetch = (lastOutcome (flakyFetch n), schedule 0 n))"
  using debugFetch_retry_policy [of 3 flakyFetch "S ''agents''"]
  by simp

lemma debugFetch_flaky_run:
  "debugFetch (S ''agents'') 3 flakyFetch
   = (Returned \<lparr>status = 404, statusText = S ''Not Found''\<rparr>,
      [Fetch 1, Wait 1000, Fetch 2, Wait 2000, Fetch 3])"
  by (simp add: debugFetch_def debugFetchLoop.simps ok_def flakyFetch_def)

text \<open>
  C6 as stated fails when every attempt is answered with a 5xx: after the third 503 nothing is
  thrown, the 503 response is returned to the caller.
\<close>

theorem debugFetch_server_errors_counterexample:
  "debugFetch (S ''agents'') 3 (\<lambda>k. Resolves \<lparr>status = 503, statusText = S ''Service Unavailable''\<rparr>)
   = (Returned \<lparr>status = 503, statusText = S ''Service Unavailable''\<rparr>,
      [Fetch 1, Wait 1000, Fetch 2, Wait 2000, Fetch 3])"
  by (simp add: debugFetch_def debugFetchLoop.simps ok_def)

end
